theory Spec2Isabelle
  imports Complex_Main "HOL-Library.Sublist"
begin

section \<open>Python strings\<close>

text \<open>
  A Python \<^verbatim>\<open>str\<close> is a sequence of Unicode code points, and \<^verbatim>\<open>len\<close> counts code points.
  A string is therefore a list of code points; \<open>py\<close> turns an ASCII literal of the
  program text into such a list.
\<close>

type_synonym pystr = "nat list"

definition py :: "string \<Rightarrow> pystr" where
  "py s = map of_char s"

text \<open>
  Exceptions are values. \<open>ValueError\<close> carries its message; \<open>JSONDecodeError\<close> is
  the error of \<^verbatim>\<open>json.loads\<close> (in Python a subclass of \<^verbatim>\<open>ValueError\<close> with a message
  of its own, which is not modelled).
\<close>

datatype exn =
    ValueError pystr
  | JSONDecodeError
  | IndexError
  | OSError
  | PdfReadError
  | ServiceError

text \<open>\<^verbatim>\<open>s.find(sub)\<close>: the lowest index where \<open>sub\<close> starts in \<open>s\<close>, or \<open>-1\<close>.\<close>

fun find_py :: "pystr \<Rightarrow> pystr \<Rightarrow> int" where
  "find_py [] sub = (if sub = [] then 0 else - 1)"
| "find_py (c # cs) sub =
     (if prefix sub (c # cs) then 0
      else (let r = find_py cs sub in if r = - 1 then - 1 else r + 1))"

text \<open>\<^verbatim>\<open>s.rfind(sub)\<close>: the highest index where \<open>sub\<close> starts in \<open>s\<close>, or \<open>-1\<close>.\<close>

fun rfind_py :: "pystr \<Rightarrow> pystr \<Rightarrow> int" where
  "rfind_py [] sub = (if sub = [] then 0 else - 1)"
| "rfind_py (c # cs) sub =
     (let r = rfind_py cs sub in
      if r \<noteq> - 1 then r + 1 else if prefix sub (c # cs) then 0 else - 1)"

text \<open>\<^verbatim>\<open>sub in s\<close> for strings.\<close>

definition str_in :: "pystr \<Rightarrow> pystr \<Rightarrow> bool" where
  "str_in sub s \<longleftrightarrow> find_py s sub \<noteq> - 1"

text \<open>
  \<^verbatim>\<open>s.split(sep)\<close>: \<open>s\<close> is cut at the occurrences of \<open>sep\<close>, found from left to right
  without overlap. Python raises \<^verbatim>\<open>ValueError\<close> for an empty separator; the program
  only splits at the literals \<^verbatim>\<open>```json\<close> and \<^verbatim>\<open>```\<close>, and the model gives the empty list
  there.
\<close>

function split_py :: "pystr \<Rightarrow> pystr \<Rightarrow> pystr list" where
  "split_py s sep =
     (if sep = [] then []
      else (let i = find_py s sep in
            if i = - 1 then [s]
            else take (nat i) s # split_py (drop (nat i + length sep) s) sep))"
  by pat_completeness auto
termination
proof (relation "measure (\<lambda>(s, sep). length s)")
  show "wf (measure (\<lambda>(s, sep). length s))" by simp
next
  fix s sep :: pystr and i :: int
  assume "sep \<noteq> []" "i = find_py s sep" "i \<noteq> - 1"
  then have "s \<noteq> []" by (cases s) auto
  with \<open>sep \<noteq> []\<close>
  show "((drop (nat i + length sep) s, sep), (s, sep)) \<in> measure (\<lambda>(s, sep). length s)"
    by simp
qed

declare split_py.simps [simp del]

text \<open>\<^verbatim>\<open>xs[i]\<close> for \<open>i \<ge> 0\<close>: \<^verbatim>\<open>IndexError\<close> out of range.\<close>

definition index_py :: "'a list \<Rightarrow> nat \<Rightarrow> exn + 'a" where
  "index_py xs i = (if i < length xs then Inr (xs ! i) else Inl IndexError)"

definition bind_exn :: "exn + 'a \<Rightarrow> ('a \<Rightarrow> exn + 'b) \<Rightarrow> exn + 'b" where
  "bind_exn r f = (case r of Inl e \<Rightarrow> Inl e | Inr x \<Rightarrow> f x)"

text \<open>
  \<^verbatim>\<open>c.isspace()\<close>: the code points that \<^verbatim>\<open>str.strip()\<close> removes (the Unicode white
  space of CPython).
\<close>

definition isspace :: "nat \<Rightarrow> bool" where
  "isspace c \<longleftrightarrow> c \<in> set [0x9, 0xa, 0xb, 0xc, 0xd, 0x1c, 0x1d, 0x1e, 0x1f, 0x20, 0x85, 0xa0,
     0x1680, 0x2000, 0x2001, 0x2002, 0x2003, 0x2004, 0x2005, 0x2006, 0x2007, 0x2008, 0x2009,
     0x200a, 0x2028, 0x2029, 0x202f, 0x205f, 0x3000]"

definition strip_py :: "pystr \<Rightarrow> pystr" where
  "strip_py s = rev (dropWhile isspace (rev (dropWhile isspace s)))"

text \<open>\<^verbatim>\<open>s[i:j]\<close>: negative indices count from the end, and both are clamped to the string.\<close>

definition slice_py :: "pystr \<Rightarrow> int \<Rightarrow> int \<Rightarrow> pystr" where
  "slice_py s i j =
     (let n = int (length s);
          lo = (if i < 0 then max 0 (i + n) else min i n);
          hi = (if j < 0 then max 0 (j + n) else min j n)
      in take (nat (hi - lo)) (drop (nat lo) s))"

text \<open>\<^verbatim>\<open>str(n)\<close> for a natural number and for an integer: decimal digits.\<close>

fun str_nat :: "nat \<Rightarrow> pystr" where
  "str_nat n = (if n < 10 then [0x30 + n] else str_nat (n div 10) @ [0x30 + n mod 10])"

declare str_nat.simps [simp del]

definition str_int :: "int \<Rightarrow> pystr" where
  "str_int i = (if i < 0 then 0x2d # str_nat (nat (- i)) else str_nat (nat i))"

text \<open>\<^verbatim>\<open>sep.join(xs)\<close>.\<close>

fun join_py :: "pystr \<Rightarrow> pystr list \<Rightarrow> pystr" where
  "join_py sep [] = []"
| "join_py sep [x] = x"
| "join_py sep (x # y # ys) = x @ sep @ join_py sep (y # ys)"

section \<open>Grade calculator\<close>

text \<open>
  \<^verbatim>\<open>calculate_grade(percentage: float) -> str\<close>: a chain of comparisons against the
  integer thresholds 90, 80, 70, 60, 50. The comparison of a finite float with an integer
  is exact in Python, so the percentage is a real number here.
\<close>

definition calculate_grade :: "real \<Rightarrow> pystr" where
  "calculate_grade percentage =
     (if percentage \<ge> 90 then py ''A+''
      else if percentage \<ge> 80 then py ''A''
      else if percentage \<ge> 70 then py ''B''
      else if percentage \<ge> 60 then py ''C''
      else if percentage \<ge> 50 then py ''D''
      else py ''F'')"

section \<open>PDF extractor\<close>

text \<open>
  What \<^verbatim>\<open>extract_pdf_text\<close> sees of a path: nothing that can be opened (\<open>None\<close>), a file
  that \<^verbatim>\<open>PyPDF2.PdfReader\<close> rejects (\<open>Corrupt\<close>), or a PDF with its pages in order. A
  page either yields its text or makes \<^verbatim>\<open>page.extract_text()\<close> raise.
\<close>

datatype page = Page pystr | BadPage

datatype pdf = Pdf "page list" | Corrupt

type_synonym pdf_files = "pystr \<Rightarrow> pdf option"

text \<open>
  The loop \<^verbatim>\<open>for page_num, page in enumerate(pdf_reader.pages, 1)\<close>. The variable
  \<^verbatim>\<open>text\<close> is threaded through; an exception leaves the loop with the text accumulated
  so far.
\<close>

fun read_pages :: "nat \<Rightarrow> page list \<Rightarrow> pystr \<Rightarrow> pystr \<times> exn option" where
  "read_pages page_num [] text = (text, None)"
| "read_pages page_num (Page page_text # pages) text =
     read_pages (page_num + 1) pages
       (text @ [0x0a] @ py ''--- Page '' @ str_nat page_num @ py '' ---'' @ [0x0a]
             @ page_text @ [0x0a])"
| "read_pages page_num (BadPage # pages) text = (text, Some PdfReadError)"

text \<open>
  The body of the \<^verbatim>\<open>try\<close> block, started with \<^verbatim>\<open>text = ""\<close>: the value of \<^verbatim>\<open>text\<close> when
  the block is left, and the exception that left it, if any.
\<close>

definition extract_pdf_body :: "pdf_files \<Rightarrow> pystr \<Rightarrow> pystr \<Rightarrow> pystr \<times> exn option" where
  "extract_pdf_body files pdf_path text =
     (case files pdf_path of
        None \<Rightarrow> (text, Some OSError)
      | Some Corrupt \<Rightarrow> (text, Some PdfReadError)
      | Some (Pdf pages) \<Rightarrow> read_pages 1 pages text)"

text \<open>
  \<^verbatim>\<open>extract_pdf_text\<close>: the handler \<^verbatim>\<open>except Exception\<close> only prints, and the function
  returns \<^verbatim>\<open>text\<close> on both paths. (The progress messages are not modelled.)
\<close>

definition extract_pdf_text :: "pdf_files \<Rightarrow> pystr \<Rightarrow> pystr" where
  "extract_pdf_text files pdf_path = fst (extract_pdf_body files pdf_path [])"

text \<open>
  The dictionary returned by the three document tools, with keys \<^verbatim>\<open>'text'\<close>, \<^verbatim>\<open>'path'\<close>,
  \<^verbatim>\<open>'type'\<close> and \<^verbatim>\<open>'char_count'\<close> (fields \<open>doc_text\<close>, \<open>doc_path\<close>, \<open>doc_type\<close>,
  \<open>char_count\<close>). \<^verbatim>\<open>os.path.normpath\<close> is a parameter.
\<close>

record document =
  doc_text :: pystr
  doc_path :: pystr
  doc_type :: pystr
  char_count :: int

definition process_question_paper ::
  "(pystr \<Rightarrow> pystr) \<Rightarrow> pdf_files \<Rightarrow> pystr \<Rightarrow> document" where
  "process_question_paper normpath files pdf_path =
     (let pdf_path = normpath pdf_path;
          text = extract_pdf_text files pdf_path
      in \<lparr>doc_text = text, doc_path = pdf_path, doc_type = py ''question_paper'',
          char_count = int (length text)\<rparr>)"

definition process_answer_sheet ::
  "(pystr \<Rightarrow> pystr) \<Rightarrow> pdf_files \<Rightarrow> pystr \<Rightarrow> document" where
  "process_answer_sheet normpath files pdf_path =
     (let pdf_path = normpath pdf_path;
          text = extract_pdf_text files pdf_path
      in \<lparr>doc_text = text, doc_path = pdf_path, doc_type = py ''answer_sheet'',
          char_count = int (length text)\<rparr>)"

definition process_textbook ::
  "(pystr \<Rightarrow> pystr) \<Rightarrow> pdf_files \<Rightarrow> pystr \<Rightarrow> document" where
  "process_textbook normpath files pdf_path =
     (let pdf_path = normpath pdf_path;
          text = extract_pdf_text files pdf_path
      in \<lparr>doc_text = text, doc_path = pdf_path, doc_type = py ''textbook'',
          char_count = int (length text)\<rparr>)"

text \<open>
  The text that an extraction without failure gives for a list of page texts, numbered
  from \<open>n\<close>: each page's text after its delimiter line.
\<close>

fun render_pages :: "nat \<Rightarrow> pystr list \<Rightarrow> pystr" where
  "render_pages n [] = []"
| "render_pages n (t # ts) =
     ([0x0a] @ py ''--- Page '' @ str_nat n @ py '' ---'' @ [0x0a] @ t @ [0x0a])
     @ render_pages (n + 1) ts"

fun readable :: "page \<Rightarrow> bool" where
  "readable (Page t) = True"
| "readable BadPage = False"

fun page_text :: "page \<Rightarrow> pystr" where
  "page_text (Page t) = t"
| "page_text BadPage = []"

section \<open>The JSON library\<close>

text \<open>
  \<^verbatim>\<open>json.loads\<close> and \<^verbatim>\<open>json.dumps\<close> belong to the Python standard library, not to the
  program. This section models them after CPython's \<^verbatim>\<open>json\<close> package for the values
  \<^verbatim>\<open>None\<close>, booleans, integers, strings, lists and dictionaries with string keys.
  A dictionary is the list of its items in insertion order, so equal values of the model
  are equal dictionaries. A float is carried as the literal that denotes it: its numeric
  value, and the text Python prints for it, are not modelled, and no result below is about
  a value with a float in it. The interpreter's limits (recursion depth, digits of an
  integer literal) are not modelled either.
\<close>

datatype json =
    JNull
  | JBool bool
  | JInt int
  | JFloat pystr
  | JStr pystr
  | JArr "json list"
  | JObj "(pystr \<times> json) list"

text \<open>The white space of JSON: space, tab, line feed, carriage return.\<close>

definition is_ws :: "nat \<Rightarrow> bool" where
  "is_ws c \<longleftrightarrow> c = 0x20 \<or> c = 0x09 \<or> c = 0x0a \<or> c = 0x0d"

definition skip_ws :: "pystr \<Rightarrow> pystr" where
  "skip_ws s = dropWhile is_ws s"

definition is_digit :: "nat \<Rightarrow> bool" where
  "is_digit c \<longleftrightarrow> 0x30 \<le> c \<and> c \<le> 0x39"

definition hexval :: "nat \<Rightarrow> nat option" where
  "hexval c =
     (if 0x30 \<le> c \<and> c \<le> 0x39 then Some (c - 0x30)
      else if 0x61 \<le> c \<and> c \<le> 0x66 then Some (c - 0x61 + 10)
      else if 0x41 \<le> c \<and> c \<le> 0x46 then Some (c - 0x41 + 10)
      else None)"

fun decode_uXXXX :: "pystr \<Rightarrow> nat option" where
  "decode_uXXXX (a # b # c # d # _) =
     (case (hexval a, hexval b, hexval c, hexval d) of
        (Some x, Some y, Some z, Some w) \<Rightarrow> Some (((x * 16 + y) * 16 + z) * 16 + w)
      | _ \<Rightarrow> None)"
| "decode_uXXXX _ = None"

definition backslash :: "nat \<Rightarrow> nat option" where
  "backslash e =
     (if e = 0x22 then Some 0x22
      else if e = 0x5c then Some 0x5c
      else if e = 0x2f then Some 0x2f
      else if e = 0x62 then Some 0x08
      else if e = 0x66 then Some 0x0c
      else if e = 0x6e then Some 0x0a
      else if e = 0x72 then Some 0x0d
      else if e = 0x74 then Some 0x09
      else None)"


definition cons_chr :: "nat \<Rightarrow> (pystr \<times> pystr) option \<Rightarrow> (pystr \<times> pystr) option" where
  "cons_chr c r = map_option (\<lambda>(s, rest). (c # s, rest)) r"

text \<open>
  Scanning a string after its opening quote, one character or escape sequence at a time:
  the closing quote, a decoded code point with the rest of the input, or an error. A
  \<^verbatim>\<open>\uXXXX\<close> escape of a high surrogate that is followed by the escape of a low surrogate
  is joined with it into one code point.
\<close>

datatype scan_step = Closing pystr | Chr nat pystr | Invalid

definition scan_escape :: "pystr \<Rightarrow> scan_step" where
  "scan_escape es =
     (case decode_uXXXX es of
        None \<Rightarrow> Invalid
      | Some uni \<Rightarrow>
          if 0xd800 \<le> uni \<and> uni \<le> 0xdbff \<and> take 2 (drop 4 es) = [0x5c, 0x75] then
            (case decode_uXXXX (drop 6 es) of
               None \<Rightarrow> Invalid
             | Some uni2 \<Rightarrow>
                 if 0xdc00 \<le> uni2 \<and> uni2 \<le> 0xdfff
                 then Chr (0x10000 + ((uni - 0xd800) * 1024 + (uni2 - 0xdc00))) (drop 10 es)
                 else Chr uni (drop 4 es))
          else Chr uni (drop 4 es))"

definition scan_char :: "pystr \<Rightarrow> scan_step" where
  "scan_char s =
     (case s of
        [] \<Rightarrow> Invalid
      | c # cs \<Rightarrow>
          if c = 0x22 then Closing cs
          else if c = 0x5c then
            (case cs of
               [] \<Rightarrow> Invalid
             | e # es \<Rightarrow>
                 if e = 0x75 then scan_escape es
                 else (case backslash e of None \<Rightarrow> Invalid | Some ch \<Rightarrow> Chr ch es))
          else if c < 0x20 then Invalid
          else Chr c cs)"

lemma scan_escape_shorter: "scan_escape es = Chr c r \<Longrightarrow> length r \<le> length es"
  by (auto simp: scan_escape_def split: option.splits if_splits)

lemma scan_char_shorter:
  assumes "scan_char s = Chr c r"
  shows "length r < length s"
proof (cases s)
  case Nil
  with assms show ?thesis by (simp add: scan_char_def)
next
  case (Cons a cs)
  show ?thesis
  proof (cases "a = 0x5c")
    case False
    with assms Cons show ?thesis
      by (simp add: scan_char_def split: if_splits)
  next
    case True
    show ?thesis
    proof (cases cs)
      case Nil
      with assms Cons True show ?thesis by (simp add: scan_char_def)
    next
      case (Cons e es)
      show ?thesis
      proof (cases "e = 0x75")
        case True
        with assms \<open>s = a # cs\<close> \<open>a = 0x5c\<close> Cons
        have "scan_escape es = Chr c r" by (simp add: scan_char_def)
        from scan_escape_shorter [OF this] \<open>s = a # cs\<close> Cons show ?thesis by simp
      next
        case False
        with assms \<open>s = a # cs\<close> \<open>a = 0x5c\<close> Cons show ?thesis
          by (simp add: scan_char_def split: option.splits)
      qed
    qed
  qed
qed

function scanstring :: "pystr \<Rightarrow> (pystr \<times> pystr) option" where
  "scanstring s =
     (case scan_char s of
        Invalid \<Rightarrow> None
      | Closing rest \<Rightarrow> Some ([], rest)
      | Chr c rest \<Rightarrow> cons_chr c (scanstring rest))"
  by pat_completeness auto
termination
  by (relation "measure length") (auto dest: scan_char_shorter)

declare scanstring.simps [simp del]





text \<open>
  Numbers: an optional minus sign, \<^verbatim>\<open>0\<close> or a digit string without leading zero, an
  optional fraction and an optional exponent; with neither of these the number is an
  integer.
\<close>

definition nat_of_digits :: "pystr \<Rightarrow> nat" where
  "nat_of_digits ds = foldl (\<lambda>a d. 10 * a + (d - 0x30)) 0 ds"

definition scan_int_part :: "pystr \<Rightarrow> (pystr \<times> pystr) option" where
  "scan_int_part s =
     (case s of
        [] \<Rightarrow> None
      | c # cs \<Rightarrow>
          if c = 0x30 then Some ([c], cs)
          else if 0x31 \<le> c \<and> c \<le> 0x39 then Some (takeWhile is_digit s, dropWhile is_digit s)
          else None)"

definition scan_frac :: "pystr \<Rightarrow> pystr \<times> pystr" where
  "scan_frac s =
     (case s of
        c # cs \<Rightarrow>
          if c = 0x2e \<and> takeWhile is_digit cs \<noteq> []
          then (c # takeWhile is_digit cs, dropWhile is_digit cs)
          else ([], s)
      | [] \<Rightarrow> ([], s))"

definition scan_exp :: "pystr \<Rightarrow> pystr \<times> pystr" where
  "scan_exp s =
     (case s of
        c # cs \<Rightarrow>
          if c = 0x65 \<or> c = 0x45 then
            (let (sign, ds) = (case cs of
                                 d # ds' \<Rightarrow> if d = 0x2b \<or> d = 0x2d then ([d], ds') else ([], cs)
                               | [] \<Rightarrow> ([], cs))
             in if takeWhile is_digit ds \<noteq> []
                then (c # sign @ takeWhile is_digit ds, dropWhile is_digit ds)
                else ([], s))
          else ([], s)
      | [] \<Rightarrow> ([], s))"

definition scan_number :: "pystr \<Rightarrow> (json \<times> pystr) option" where
  "scan_number s =
     (let (sign, s1) = (case s of c # cs \<Rightarrow> if c = 0x2d then ([c], cs) else ([], s) | [] \<Rightarrow> ([], s))
      in case scan_int_part s1 of
           None \<Rightarrow> None
         | Some (integer, s2) \<Rightarrow>
             (let (frac, s3) = scan_frac s2; (exp, s4) = scan_exp s3
              in if frac \<noteq> [] \<or> exp \<noteq> [] then Some (JFloat (sign @ integer @ frac @ exp), s4)
                 else Some (JInt (if sign = [] then int (nat_of_digits integer)
                                  else - int (nat_of_digits integer)), s4)))"

text \<open>The values that hold no other value, in the order the scanner tries them.\<close>

definition scan_atom :: "pystr \<Rightarrow> (json \<times> pystr) option" where
  "scan_atom s =
     (if prefix (py ''null'') s then Some (JNull, drop 4 s)
      else if prefix (py ''true'') s then Some (JBool True, drop 4 s)
      else if prefix (py ''false'') s then Some (JBool False, drop 5 s)
      else case scan_number s of
             Some r \<Rightarrow> Some r
           | None \<Rightarrow>
               if prefix (py ''NaN'') s then Some (JFloat (py ''NaN''), drop 3 s)
               else if prefix (py ''Infinity'') s then Some (JFloat (py ''Infinity''), drop 8 s)
               else if prefix (py ''-Infinity'') s then Some (JFloat (py ''-Infinity''), drop 9 s)
               else None)"

text \<open>
  After an item of a list or dictionary: white space, then the closing bracket or a comma
  (and white space again).
\<close>

datatype after = Last pystr | More pystr | Malformed

definition after_item :: "nat \<Rightarrow> pystr \<Rightarrow> after" where
  "after_item closing s =
     (case skip_ws s of
        [] \<Rightarrow> Malformed
      | c # cs \<Rightarrow> if c = closing then Last cs else if c = 0x2c then More (skip_ws cs) else Malformed)"

text \<open>A key of a dictionary with its colon.\<close>

definition scan_key :: "pystr \<Rightarrow> (pystr \<times> pystr) option" where
  "scan_key s =
     (case s of
        [] \<Rightarrow> None
      | c # cs \<Rightarrow>
          if c = 0x22 then
            (case scanstring cs of
               None \<Rightarrow> None
             | Some (key, r) \<Rightarrow>
                 (case skip_ws r of
                    [] \<Rightarrow> None
                  | d # ds \<Rightarrow> if d = 0x3a then Some (key, skip_ws ds) else None))
          else None)"

text \<open>
  \<^verbatim>\<open>dict(pairs)\<close>: a later value for a key replaces the earlier one, at the place of the
  earlier one.
\<close>

fun dict_set :: "(pystr \<times> 'v) list \<Rightarrow> pystr \<Rightarrow> 'v \<Rightarrow> (pystr \<times> 'v) list" where
  "dict_set [] k v = [(k, v)]"
| "dict_set ((k', v') # d) k v = (if k' = k then (k', v) # d else (k', v') # dict_set d k v)"

definition dict_of_pairs :: "(pystr \<times> 'v) list \<Rightarrow> (pystr \<times> 'v) list" where
  "dict_of_pairs pairs = foldl (\<lambda>d (k, v). dict_set d k v) [] pairs"

lemma skip_ws_length: "length (skip_ws s) \<le> length s"
  by (simp add: skip_ws_def length_dropWhile_le)

lemma after_item_More: "after_item c s = More t \<Longrightarrow> length t < length s"
proof -
  assume a: "after_item c s = More t"
  then obtain d ds where sk: "skip_ws s = d # ds" and t: "t = skip_ws ds"
    by (auto simp: after_item_def split: list.splits if_splits)
  have "length t \<le> length ds" using t skip_ws_length by simp
  moreover have "length (d # ds) \<le> length s" using sk skip_ws_length [of s] by simp
  ultimately show ?thesis by simp
qed

lemma scan_escape_not_Closing: "scan_escape es \<noteq> Closing r"
  by (simp add: scan_escape_def split: option.splits)

lemma scan_char_Closing:
  assumes "scan_char s = Closing r"
  shows "s = 0x22 # r"
proof (cases s)
  case Nil
  with assms show ?thesis by (simp add: scan_char_def)
next
  case (Cons a cs)
  show ?thesis
  proof (cases "a = 0x22")
    case True
    with assms Cons show ?thesis by (simp add: scan_char_def)
  next
    case False
    with assms Cons have "False"
      by (auto simp: scan_char_def scan_escape_not_Closing
          split: if_splits list.splits option.splits)
    then show ?thesis ..
  qed
qed

lemma scanstring_shorter: "scanstring s = Some (k, r) \<Longrightarrow> length r < length s"
proof (induction s arbitrary: k rule: scanstring.induct)
  case (1 s)
  show ?case
  proof (cases "scan_char s")
    case (Closing rest)
    with "1.prems" have "r = rest" by (simp add: scanstring.simps)
    moreover from scan_char_Closing [OF Closing] have "length rest < length s"
      by simp
    ultimately show ?thesis by simp
  next
    case (Chr c rest)
    with "1.prems" obtain k' where "scanstring rest = Some (k', r)"
      by (auto simp: scanstring.simps cons_chr_def)
    from "1.IH" [OF Chr this] scan_char_shorter [OF Chr] show ?thesis by simp
  next
    case Invalid
    with "1.prems" show ?thesis by (simp add: scanstring.simps)
  qed
qed

lemma scan_key_shorter: "scan_key s = Some (k, r) \<Longrightarrow> length r < length s"
proof -
  assume a: "scan_key s = Some (k, r)"
  then obtain cs r0 ds where s: "s = 0x22 # cs" and sc: "scanstring cs = Some (k, r0)"
    and sk: "skip_ws r0 = 0x3a # ds" and r: "r = skip_ws ds"
    by (auto simp: scan_key_def split: list.splits if_splits option.splits)
  have "length r \<le> length ds" using r skip_ws_length by simp
  moreover have "length (0x3a # ds) \<le> length r0" using sk skip_ws_length [of r0] by simp
  moreover note scanstring_shorter [OF sc]
  ultimately show ?thesis using s by simp
qed

text \<open>
  The scanner proper. Each function returns the value read and the rest of the input.
  The tests \<open>length r < length s\<close> make the recursion well-founded; they always succeed
  (lemmas \<open>parse_value_shorter\<close>, \<open>parse_items_shorter\<close>, \<open>parse_pairs_shorter\<close>).
\<close>

function parse_value :: "pystr \<Rightarrow> (json \<times> pystr) option"
  and parse_items :: "pystr \<Rightarrow> (json list \<times> pystr) option"
  and parse_pairs :: "pystr \<Rightarrow> ((pystr \<times> json) list \<times> pystr) option"
where
  "parse_value s =
     (case s of
        [] \<Rightarrow> None
      | c # cs \<Rightarrow>
          if c = 0x22 then map_option (\<lambda>(str, r). (JStr str, r)) (scanstring cs)
          else if c = 0x7b then
            (case skip_ws cs of
               [] \<Rightarrow> None
             | d # ds \<Rightarrow>
                 if d = 0x7d then Some (JObj [], ds)
                 else map_option (\<lambda>(ps, r). (JObj (dict_of_pairs ps), r)) (parse_pairs (d # ds)))
          else if c = 0x5b then
            (case skip_ws cs of
               [] \<Rightarrow> None
             | d # ds \<Rightarrow>
                 if d = 0x5d then Some (JArr [], ds)
                 else map_option (\<lambda>(vs, r). (JArr vs, r)) (parse_items (d # ds)))
          else scan_atom s)"
| "parse_items s =
     (case parse_value s of
        None \<Rightarrow> None
      | Some (v, r) \<Rightarrow>
          if length r < length s then
            (case after_item 0x5d r of
               Malformed \<Rightarrow> None
             | Last t \<Rightarrow> Some ([v], t)
             | More t \<Rightarrow> map_option (\<lambda>(vs, r'). (v # vs, r')) (parse_items t))
          else None)"
| "parse_pairs s =
     (case scan_key s of
        None \<Rightarrow> None
      | Some (key, r) \<Rightarrow>
          (case parse_value r of
             None \<Rightarrow> None
           | Some (v, r') \<Rightarrow>
               if length r' < length s then
                 (case after_item 0x7d r' of
                    Malformed \<Rightarrow> None
                  | Last t \<Rightarrow> Some ([(key, v)], t)
                  | More t \<Rightarrow> map_option (\<lambda>(ps, r''). ((key, v) # ps, r'')) (parse_pairs t))
               else None))"
  by pat_completeness auto
termination
proof (relation "measure (\<lambda>x. case x of Inl s \<Rightarrow> 2 * length s
                                    | Inr (Inl s) \<Rightarrow> 2 * length s + 1
                                    | Inr (Inr s) \<Rightarrow> 2 * length s + 1)", goal_cases)
  case 1
  show ?case by simp
next
  case (2 s c cs d ds)
  then show ?case using skip_ws_length [of cs] by simp
next
  case (3 s c cs d ds)
  then show ?case using skip_ws_length [of cs] by simp
next
  case (4 s)
  show ?case by simp
next
  case (5 s x v r t)
  then show ?case using after_item_More [of "0x5d" r t] by simp
next
  case (6 s x key r)
  then show ?case using scan_key_shorter [of s key r] by simp
next
  case (7 s x key r y v r' t)
  then show ?case using after_item_More [of "0x7d" r' t] by simp
qed

declare parse_value.simps [simp del] parse_items.simps [simp del] parse_pairs.simps [simp del]

text \<open>
  \<^verbatim>\<open>json.loads(s)\<close>: a byte order mark is refused; white space may surround the one
  value.
\<close>

definition loads :: "pystr \<Rightarrow> exn + json" where
  "loads s =
     (if prefix [0xfeff] s then Inl JSONDecodeError
      else case parse_value (skip_ws s) of
             None \<Rightarrow> Inl JSONDecodeError
           | Some (obj, r) \<Rightarrow> if skip_ws r = [] then Inr obj else Inl JSONDecodeError)"


text \<open>
  \<^verbatim>\<open>json.dumps\<close> with its defaults (\<^verbatim>\<open>ensure_ascii=True\<close>): every code point outside
  the printable ASCII range is escaped, above \<open>0xFFFF\<close> as a surrogate pair.
\<close>

definition hexdigit :: "nat \<Rightarrow> nat" where
  "hexdigit d = (if d < 10 then 0x30 + d else 0x61 + (d - 10))"

definition hex4 :: "nat \<Rightarrow> pystr" where
  "hex4 n = [hexdigit (n div 4096 mod 16), hexdigit (n div 256 mod 16),
             hexdigit (n div 16 mod 16), hexdigit (n mod 16)]"

definition escape_chr :: "nat \<Rightarrow> pystr" where
  "escape_chr c =
     (if c = 0x5c then [0x5c, 0x5c]
      else if c = 0x22 then [0x5c, 0x22]
      else if c = 0x08 then [0x5c, 0x62]
      else if c = 0x0c then [0x5c, 0x66]
      else if c = 0x0a then [0x5c, 0x6e]
      else if c = 0x0d then [0x5c, 0x72]
      else if c = 0x09 then [0x5c, 0x74]
      else if 0x20 \<le> c \<and> c \<le> 0x7e then [c]
      else if c < 0x10000 then [0x5c, 0x75] @ hex4 c
      else [0x5c, 0x75] @ hex4 (0xd800 + (c - 0x10000) div 1024 mod 1024)
           @ [0x5c, 0x75] @ hex4 (0xdc00 + (c - 0x10000) mod 1024))"

definition encode_basestring_ascii :: "pystr \<Rightarrow> pystr" where
  "encode_basestring_ascii s = [0x22] @ concat (map escape_chr s) @ [0x22]"

text \<open>
  The encoder, with \<^verbatim>\<open>indent\<close> either \<^verbatim>\<open>None\<close> or a number of spaces and the current
  nesting level. Items are separated by \<^verbatim>\<open>', '\<close> without indentation and by \<^verbatim>\<open>','\<close> and a
  new line with it; a key is followed by \<^verbatim>\<open>': '\<close>.
\<close>

definition newline_indent :: "nat option \<Rightarrow> nat \<Rightarrow> pystr" where
  "newline_indent indent level =
     (case indent of None \<Rightarrow> [] | Some k \<Rightarrow> 0x0a # replicate (k * level) 0x20)"

definition item_separator :: "nat option \<Rightarrow> pystr" where
  "item_separator indent = (case indent of None \<Rightarrow> py '', '' | Some k \<Rightarrow> py '','')"

fun iterencode :: "nat option \<Rightarrow> nat \<Rightarrow> json \<Rightarrow> pystr" where
  "iterencode indent level JNull = py ''null''"
| "iterencode indent level (JBool b) = (if b then py ''true'' else py ''false'')"
| "iterencode indent level (JInt i) = str_int i"
| "iterencode indent level (JFloat lit) = lit"
| "iterencode indent level (JStr s) = encode_basestring_ascii s"
| "iterencode indent level (JArr lst) =
     (if lst = [] then py ''[]''
      else py ''['' @ newline_indent indent (level + 1)
           @ join_py (item_separator indent @ newline_indent indent (level + 1))
               (map (iterencode indent (level + 1)) lst)
           @ newline_indent indent level @ py '']'')"
| "iterencode indent level (JObj dct) =
     (if dct = [] then py ''{}''
      else py ''{'' @ newline_indent indent (level + 1)
           @ join_py (item_separator indent @ newline_indent indent (level + 1))
               (map (\<lambda>kv. encode_basestring_ascii (fst kv) @ py '': ''
                            @ iterencode indent (level + 1) (snd kv)) dct)
           @ newline_indent indent level @ py ''}'')"


definition dumps_indent :: "nat \<Rightarrow> json \<Rightarrow> pystr" where
  "dumps_indent k obj = iterencode (Some k) 0 obj"











section \<open>JSON extractor\<close>

text \<open>
  \<^verbatim>\<open>extract_json_from_text(text)\<close>. The parser \<^verbatim>\<open>json.loads\<close> is the parameter
  \<open>json_loads\<close>, so that the properties of the extractor hold for any parser. The first
  call is guarded by a bare \<^verbatim>\<open>except:\<close>; an error of the second call, and the
  \<^verbatim>\<open>ValueError\<close> of the last branch, leave the function.
\<close>

definition extract_json_from_text :: "(pystr \<Rightarrow> exn + 'j) \<Rightarrow> pystr \<Rightarrow> exn + 'j" where
  "extract_json_from_text json_loads text =
     (case json_loads text of
        Inr v \<Rightarrow> Inr v
      | Inl _ \<Rightarrow>
          (if str_in (py ''```json'') text then
             bind_exn (index_py (split_py text (py ''```json'')) 1) (\<lambda>seg.
             bind_exn (index_py (split_py seg (py ''```'')) 0) (\<lambda>json_str.
               json_loads (strip_py json_str)))
           else if str_in (py ''```'') text then
             bind_exn (index_py (split_py text (py ''```'')) 1) (\<lambda>seg.
             bind_exn (index_py (split_py seg (py ''```'')) 0) (\<lambda>json_str.
               json_loads (strip_py json_str)))
           else
             (let start = find_py text (py ''{'');
                  end = rfind_py text (py ''}'') + 1
              in if start \<noteq> - 1 \<and> end > start then json_loads (slice_py text start end)
                 else Inl (ValueError (py ''No JSON found in response'')))))"

text \<open>The error of the last branch, which the specification calls \<open>NoJsonFound\<close>.\<close>

definition NoJsonFound :: exn where
  "NoJsonFound = ValueError (py ''No JSON found in response'')"

text \<open>
  The part of \<open>s\<close> after the first occurrence of \<open>sep\<close>, and the part of \<open>s\<close> before the
  first occurrence of \<open>sep\<close> (all of \<open>s\<close> when there is none): the two notions in which
  the specification describes a fenced segment.
\<close>

definition after_first :: "pystr \<Rightarrow> pystr \<Rightarrow> pystr" where
  "after_first sep s = drop (nat (find_py s sep) + length sep) s"

definition before_first :: "pystr \<Rightarrow> pystr \<Rightarrow> pystr" where
  "before_first sep s = (if str_in sep s then take (nat (find_py s sep)) s else s)"

text \<open>The index of the first and of the last occurrence of a character in a string.\<close>

definition first_index :: "nat \<Rightarrow> pystr \<Rightarrow> nat" where
  "first_index c s = length (takeWhile (\<lambda>x. x \<noteq> c) s)"

definition last_index :: "nat \<Rightarrow> pystr \<Rightarrow> nat" where
  "last_index c s = length s - 1 - first_index c (rev s)"

text \<open>
  The test of the last branch: the text has a \<^verbatim>\<open>{\<close>, and a \<^verbatim>\<open>}\<close> after the first \<^verbatim>\<open>{\<close>.
\<close>

definition brace_pair :: "pystr \<Rightarrow> bool" where
  "brace_pair text \<longleftrightarrow>
     0x7b \<in> set text \<and> 0x7d \<in> set text \<and> first_index 0x7b text < last_index 0x7d text"


section \<open>Result writer\<close>

text \<open>
  The files that \<^verbatim>\<open>save_results_to_file\<close> writes are a map from paths to contents. What
  the operating system does is a parameter: whether \<^verbatim>\<open>open(filename, 'w')\<close> raises,
  whether writing the data fails and after how many characters (a full disk), what
  \<^verbatim>\<open>os.path.abspath\<close> returns, and the text \<^verbatim>\<open>str(e)\<close> of an exception.
\<close>

type_synonym filesystem = "pystr \<rightharpoonup> pystr"

record os_env =
  open_error :: "pystr \<Rightarrow> exn option"
  write_error :: "pystr \<Rightarrow> pystr \<Rightarrow> (nat \<times> exn) option"
  abspath :: "pystr \<Rightarrow> exn + pystr"
  str_exn :: "exn \<Rightarrow> pystr"

text \<open>The two messages; the marks are U+2713 and U+2717.\<close>

definition saved_message :: "pystr \<Rightarrow> pystr" where
  "saved_message abs_path = [0x2713] @ py '' Results saved successfully to: '' @ abs_path"

definition error_message :: "os_env \<Rightarrow> exn \<Rightarrow> pystr" where
  "error_message env e = [0x2717] @ py '' Error saving results: '' @ str_exn env e"

text \<open>
  \<^verbatim>\<open>save_results_to_file(results_json, filename)\<close>: the new file system and the returned
  message. Opening for writing creates or truncates the file; a write that fails leaves
  the characters written before the failure.
\<close>

definition save_results_to_file ::
  "os_env \<Rightarrow> filesystem \<Rightarrow> pystr \<Rightarrow> pystr \<Rightarrow> filesystem \<times> pystr" where
  "save_results_to_file env fs results_json filename =
     (case loads results_json of
        Inl e \<Rightarrow> (fs, error_message env e)
      | Inr results \<Rightarrow>
          (case open_error env filename of
             Some e \<Rightarrow> (fs, error_message env e)
           | None \<Rightarrow>
               (let data = dumps_indent 2 results in
                case write_error env filename data of
                  Some (n, e) \<Rightarrow> (fs(filename \<mapsto> take n data), error_message env e)
                | None \<Rightarrow>
                    (case abspath env filename of
                       Inl e \<Rightarrow> (fs(filename \<mapsto> data), error_message env e)
                     | Inr abs_path \<Rightarrow> (fs(filename \<mapsto> data), saved_message abs_path)))))"

text \<open>The default of the parameter \<^verbatim>\<open>filename\<close>.\<close>

definition default_filename :: pystr where
  "default_filename = py ''grading_results.json''"


section \<open>Pipeline\<close>

text \<open>The class \<^verbatim>\<open>Config\<close>, with the values of the source.\<close>

record config =
  DATASET_PATH :: pystr
  QUESTION_PAPER :: pystr
  ANSWER_SHEET :: pystr
  TEXTBOOK :: pystr
  MODEL_NAME :: pystr
  APP_NAME :: pystr
  USER_ID :: pystr

definition Config :: config where
  "Config = \<lparr>DATASET_PATH = py ''./exam-data'',
             QUESTION_PAPER = py ''question_paper.pdf'',
             ANSWER_SHEET = py ''student_answer_sheet1.pdf'',
             TEXTBOOK = py ''textbook_notes.pdf'',
             MODEL_NAME = py ''gemini-2.0-flash-lite'',
             APP_NAME = py ''exam_grading_system'',
             USER_ID = py ''student_001''\<rparr>"

text \<open>\<^verbatim>\<open>os.path.join(a, b)\<close> on a POSIX system.\<close>

definition path_join :: "pystr \<Rightarrow> pystr \<Rightarrow> pystr" where
  "path_join a b =
     (if prefix (py ''/'') b then b
      else if a = [] \<or> last a = 0x2f then a @ b
      else a @ py ''/'' @ b)"

text \<open>
  What the run touches outside the program: \<^verbatim>\<open>os.path.exists\<close>, the construction of
  the runner, the creation of the session and \<^verbatim>\<open>runner.run_debug\<close>, the one call that
  reaches the reasoning service (the agents process the documents, build the schema,
  evaluate and score inside it). An event of the response has parts with text, or no
  content.
\<close>

datatype adk_event = AdkEvent "pystr list option"

record world =
  path_exists :: "pystr \<Rightarrow> bool"
  create_runner :: "exn option"
  create_session :: "exn + pystr"
  run_debug :: "pystr \<Rightarrow> exn + adk_event list"

text \<open>The steps of a run that can be observed from outside, in order.\<close>

datatype step =
    CheckedFile pystr bool
  | RunnerCreated
  | SessionCreated
  | ServiceCalled pystr

text \<open>
  The loop over the three paths: each path is checked in turn, and the first missing one
  ends the run (\<^verbatim>\<open>return None\<close>). The result says whether all files exist.
\<close>

fun check_files :: "(pystr \<Rightarrow> bool) \<Rightarrow> pystr list \<Rightarrow> step list \<times> bool" where
  "check_files ex [] = ([], True)"
| "check_files ex (p # ps) =
     (if ex p then (let (steps, ok) = check_files ex ps in (CheckedFile p True # steps, ok))
      else ([CheckedFile p False], False))"

text \<open>The steps that are file checks.\<close>

fun is_check :: "step \<Rightarrow> bool" where
  "is_check (CheckedFile p b) = True"
| "is_check _ = False"

text \<open>The request sent to the root agent, from the f-string of the source.\<close>

definition text_lines :: "pystr list \<Rightarrow> pystr" where
  "text_lines ls = concat (map (\<lambda>l. l @ [0x0a]) ls)"

definition grading_request :: "pystr \<Rightarrow> pystr \<Rightarrow> pystr \<Rightarrow> pystr" where
  "grading_request question_paper_path answer_sheet_path textbook_path =
     text_lines
       [[],
        py ''Please grade this exam completely using the 4-phase workflow.'',
        [],
        py ''FILE LOCATIONS:'',
        py ''1. Question Paper: '' @ question_paper_path,
        py ''2. Student Answer Sheet: '' @ answer_sheet_path,
        py ''3. Reference Textbook/Notes: '' @ textbook_path,
        [],
        py ''INSTRUCTIONS:'',
        py ''Execute the complete grading workflow:'',
        [],
        py ''Phase 1: Use DocumentProcessor to process all three PDF files'',
        py ''Phase 2: Use QuestionSchemaAnalyzer to create question paper schema'',
        py ''Phase 3: Use AnswerEvaluator to evaluate student answers against textbook'',
        py ''Phase 4: Use ScoringAgent to calculate final scores and generate comprehensive report'',
        [],
        py ''After completing all phases, present a clear, professional final report with:'',
        py ''- Overall performance (marks, percentage, grade)'',
        py ''- Question-wise breakdown with detailed feedback'',
        py ''- Performance analysis (strengths & areas for improvement)'',
        [],
        py ''Also save the results to a JSON file using the save_results_to_file tool.'',
        [],
        py ''Begin the grading process now.'']"

text \<open>
  The test on the response: a non-empty list whose last event has content with at least
  one part.
\<close>

definition has_final_text :: "adk_event list \<Rightarrow> bool" where
  "has_final_text response =
     (response \<noteq> [] \<and>
      (case last response of AdkEvent (Some (part # parts)) \<Rightarrow> True | _ \<Rightarrow> False))"

text \<open>
  \<^verbatim>\<open>run_grading_system()\<close>: the steps taken and the outcome. \<open>Inr None\<close> is
  \<^verbatim>\<open>return None\<close>, \<open>Inr (Some response)\<close> is \<^verbatim>\<open>return response\<close>, and \<open>Inl e\<close> is an exception
  that leaves the function: the runner and the session are created outside the
  \<^verbatim>\<open>try\<close> block.
\<close>

definition run_grading_system ::
  "config \<Rightarrow> world \<Rightarrow> step list \<times> (exn + adk_event list option)" where
  "run_grading_system cfg w =
     (let question_paper_path = path_join (DATASET_PATH cfg) (QUESTION_PAPER cfg);
          answer_sheet_path = path_join (DATASET_PATH cfg) (ANSWER_SHEET cfg);
          textbook_path = path_join (DATASET_PATH cfg) (TEXTBOOK cfg);
          (checks, ok) = check_files (path_exists w)
                           [question_paper_path, answer_sheet_path, textbook_path]
      in if \<not> ok then (checks, Inr None)
         else
           (case create_runner w of
              Some e \<Rightarrow> (checks, Inl e)
            | None \<Rightarrow>
                (case create_session w of
                   Inl e \<Rightarrow> (checks @ [RunnerCreated], Inl e)
                 | Inr session \<Rightarrow>
                     (let request = grading_request question_paper_path answer_sheet_path
                                      textbook_path;
                          steps = checks @ [RunnerCreated, SessionCreated, ServiceCalled request]
                      in case run_debug w request of
                           Inl e \<Rightarrow> (steps, Inr None)
                         | Inr response \<Rightarrow>
                             if has_final_text response then (steps, Inr (Some response))
                             else (steps, Inr None)))))"

section \<open>Example inputs\<close>

text \<open>Concrete inputs, used where a property is shown at an instance.\<close>

definition no_files :: pdf_files where
  "no_files = (\<lambda>p. None)"

definition exam_pdf :: pystr where
  "exam_pdf = py ''exam.pdf''"

text \<open>A PDF of three pages whose second page cannot be read.\<close>

definition second_page_bad :: pdf_files where
  "second_page_bad = no_files (exam_pdf := Some (Pdf [Page (py ''Q1''), BadPage, Page (py ''Q3'')]))"

text \<open>A PDF of two readable pages, a PDF without pages, and a file that is no PDF.\<close>

definition two_pages :: pdf_files where
  "two_pages = no_files (exam_pdf := Some (Pdf [Page (py ''Q1''), Page (py ''Q2'')]))"

definition zero_pages :: pdf_files where
  "zero_pages = no_files (exam_pdf := Some (Pdf []))"

definition corrupt_file :: pdf_files where
  "corrupt_file = no_files (exam_pdf := Some Corrupt)"

definition first_page_bad :: pdf_files where
  "first_page_bad = no_files (exam_pdf := Some (Pdf [BadPage, Page (py ''Q2'')]))"

definition same_path :: "pystr \<Rightarrow> pystr" where
  "same_path p = p"

text \<open>An operating system on which every operation succeeds, and an empty file system.\<close>

definition plain_env :: os_env where
  "plain_env = \<lparr>open_error = (\<lambda>p. None), write_error = (\<lambda>p d. None),
                 abspath = (\<lambda>p. Inr (py ''/work/'' @ p)), str_exn = (\<lambda>e. py ''error'')\<rparr>"


definition no_fs :: filesystem where
  "no_fs = (\<lambda>p. None)"

text \<open>A world in which the answer sheet is missing, and one in which all files exist.\<close>

definition answer_sheet_missing :: world where
  "answer_sheet_missing =
     \<lparr>path_exists = (\<lambda>p. p \<noteq> py ''./exam-data/student_answer_sheet1.pdf''),
      create_runner = None, create_session = Inr (py ''session-1''),
      run_debug = (\<lambda>req. Inr [AdkEvent (Some [py ''report''])])\<rparr>"

definition all_present :: world where
  "all_present =
     \<lparr>path_exists = (\<lambda>p. True),
      create_runner = None, create_session = Inr (py ''session-1''),
      run_debug = (\<lambda>req. Inr [AdkEvent (Some [py ''report''])])\<rparr>"





section \<open>Properties of the grade calculator\<close>

text \<open>
  Claim C1. For every real percentage \<open>p\<close>, \<open>calculate_grade p\<close> is one of the six
  letter grades, fixed by right-inclusive lower bounds: \<open>p \<ge> 90\<close> gives A+,
  \<open>80 \<le> p < 90\<close> gives A, \<open>70 \<le> p < 80\<close> gives B, \<open>60 \<le> p < 70\<close> gives C,
  \<open>50 \<le> p < 60\<close> gives D and \<open>p < 50\<close> gives F; negative values and values above 100
  are classified too. In particular grade(90) = A+, grade(89.999) = A, grade(50) = D,
  grade(49.999) = F, grade(-5) = F and grade(150) = A+.
\<close>

theorem calculate_grade_thresholds:
  "(90 \<le> p \<longrightarrow> calculate_grade p = py ''A+'')
   \<and> (80 \<le> p \<and> p < 90 \<longrightarrow> calculate_grade p = py ''A'')
   \<and> (70 \<le> p \<and> p < 80 \<longrightarrow> calculate_grade p = py ''B'')
   \<and> (60 \<le> p \<and> p < 70 \<longrightarrow> calculate_grade p = py ''C'')
   \<and> (50 \<le> p \<and> p < 60 \<longrightarrow> calculate_grade p = py ''D'')
   \<and> (p < 50 \<longrightarrow> calculate_grade p = py ''F'')
   \<and> calculate_grade p \<in> {py ''A+'', py ''A'', py ''B'', py ''C'', py ''D'', py ''F''}
   \<and> calculate_grade 90 = py ''A+''
   \<and> calculate_grade 89.999 = py ''A''
   \<and> calculate_grade 50 = py ''D''
   \<and> calculate_grade 49.999 = py ''F''
   \<and> calculate_grade (- 5) = py ''F''
   \<and> calculate_grade 150 = py ''A+''"
  by (simp add: calculate_grade_def)

theorem calculate_grade_thresholds_witness:
  "calculate_grade 95 = py ''A+'' \<and> calculate_grade 85 = py ''A''
   \<and> calculate_grade 75 = py ''B'' \<and> calculate_grade 65 = py ''C''
   \<and> calculate_grade 55 = py ''D'' \<and> calculate_grade 45 = py ''F''
   \<and> py ''A+'' \<noteq> py ''A'' \<and> py ''D'' \<noteq> py ''F''"
  using calculate_grade_thresholds [of 95] calculate_grade_thresholds [of 85]
    calculate_grade_thresholds [of 75] calculate_grade_thresholds [of 65]
    calculate_grade_thresholds [of 55] calculate_grade_thresholds [of 45]
  by (simp add: py_def)

section \<open>Properties of the PDF extractor\<close>

lemma py_simps: "py [] = []" "py (c # cs) = of_char c # py cs"
  by (simp_all add: py_def)

lemma read_pages_render:
  "read_pages n pages acc =
     (acc @ render_pages n (map page_text (takeWhile readable pages)),
      if list_all readable pages then None else Some PdfReadError)"
proof (induction pages arbitrary: n acc)
  case Nil
  show ?case by simp
next
  case (Cons p pages)
  show ?case by (cases p) (simp_all add: Cons.IH)
qed

lemma render_pages_append:
  "render_pages n (ts @ us) = render_pages n ts @ render_pages (n + length ts) us"
  by (induction ts arbitrary: n) simp_all

lemma extract_pdf_text_Pdf:
  "files p = Some (Pdf pages) \<Longrightarrow>
     extract_pdf_text files p = render_pages 1 (map page_text (takeWhile readable pages))"
  by (simp add: extract_pdf_text_def extract_pdf_body_def read_pages_render)

lemma takeWhile_all: "list_all P xs \<Longrightarrow> takeWhile P xs = xs"
  by (induction xs) simp_all

lemma takeWhile_stop: "list_all P xs \<Longrightarrow> \<not> P y \<Longrightarrow> takeWhile P (xs @ y # ys) = xs"
  by (induction xs) simp_all

lemma extract_pdf_text_no_pdf:
  "files p = None \<or> files p = Some Corrupt \<Longrightarrow> extract_pdf_text files p = []"
  by (auto simp: extract_pdf_text_def extract_pdf_body_def)

lemma extract_pdf_text_empty_iff:
  "extract_pdf_text files p = [] \<longleftrightarrow>
     (files p = None \<or> files p = Some Corrupt \<or> files p = Some (Pdf [])
      \<or> (\<exists>rest. files p = Some (Pdf (BadPage # rest))))"
proof (cases "files p")
  case None
  then show ?thesis by (simp add: extract_pdf_text_no_pdf)
next
  case (Some f)
  show ?thesis
  proof (cases f)
    case Corrupt
    with Some show ?thesis by (simp add: extract_pdf_text_no_pdf)
  next
    case (Pdf pages)
    show ?thesis
    proof (cases pages)
      case Nil
      with Some Pdf show ?thesis by (simp add: extract_pdf_text_Pdf)
    next
      case (Cons q qs)
      with Some Pdf show ?thesis by (cases q) (simp_all add: extract_pdf_text_Pdf)
    qed
  qed
qed

text \<open>
  Claim C9. \<open>extract_pdf_text\<close> returns a string for every path and lets no exception
  out: a path that cannot be opened or that is no PDF gives the empty string, a PDF whose
  pages can all be read gives the text of all pages, and when a page fails the result is
  the text accumulated for the pages before it, a prefix of the full extraction; each
  page's text follows its \<^verbatim>\<open>--- Page N ---\<close> line, in page order.
\<close>

theorem extract_pdf_text_total:
  "(files p = None \<or> files p = Some Corrupt \<longrightarrow> extract_pdf_text files p = [])
   \<and> (\<forall>pages. files p = Some (Pdf pages) \<and> list_all readable pages \<longrightarrow>
         extract_pdf_text files p = render_pages 1 (map page_text pages))
   \<and> (\<forall>good rest. files p = Some (Pdf (good @ BadPage # rest)) \<and> list_all readable good \<longrightarrow>
         extract_pdf_text files p = render_pages 1 (map page_text good)
         \<and> (\<forall>ts. prefix (extract_pdf_text files p) (render_pages 1 (map page_text good @ ts))))"
proof (intro conjI allI impI)
  assume "files p = None \<or> files p = Some Corrupt"
  then show "extract_pdf_text files p = []"
    by (auto simp: extract_pdf_text_def extract_pdf_body_def)
next
  fix pages
  assume "files p = Some (Pdf pages) \<and> list_all readable pages"
  then show "extract_pdf_text files p = render_pages 1 (map page_text pages)"
    by (simp add: extract_pdf_text_Pdf takeWhile_all)
next
  fix good rest
  assume a: "files p = Some (Pdf (good @ BadPage # rest)) \<and> list_all readable good"
  then show e: "extract_pdf_text files p = render_pages 1 (map page_text good)"
    by (simp add: extract_pdf_text_Pdf takeWhile_stop)
  fix ts
  show "prefix (extract_pdf_text files p) (render_pages 1 (map page_text good @ ts))"
    unfolding e render_pages_append by simp
qed

theorem extract_pdf_text_total_witness:
  "extract_pdf_text no_files exam_pdf = []
   \<and> extract_pdf_text corrupt_file exam_pdf = []
   \<and> extract_pdf_text two_pages exam_pdf
       = [0x0a] @ py ''--- Page 1 ---'' @ [0x0a] @ py ''Q1'' @ [0x0a]
         @ [0x0a] @ py ''--- Page 2 ---'' @ [0x0a] @ py ''Q2'' @ [0x0a]
   \<and> extract_pdf_text second_page_bad exam_pdf
       = [0x0a] @ py ''--- Page 1 ---'' @ [0x0a] @ py ''Q1'' @ [0x0a]"
proof -
  have 1: "no_files exam_pdf = None" by (simp add: no_files_def)
  have 2: "corrupt_file exam_pdf = Some Corrupt" by (simp add: corrupt_file_def)
  have 3: "two_pages exam_pdf = Some (Pdf [Page (py ''Q1''), Page (py ''Q2'')])
           \<and> list_all readable [Page (py ''Q1''), Page (py ''Q2'')]"
    by (simp add: two_pages_def)
  have 4: "second_page_bad exam_pdf = Some (Pdf ([Page (py ''Q1'')] @ BadPage # [Page (py ''Q3'')]))
           \<and> list_all readable [Page (py ''Q1'')]"
    by (simp add: second_page_bad_def)
  have s: "str_nat (Suc 0) = [0x31]" "str_nat (Suc (Suc 0)) = [0x32]"
    by (simp_all add: str_nat.simps)
  from extract_pdf_text_total [of no_files exam_pdf] 1
  have a: "extract_pdf_text no_files exam_pdf = []" by simp
  from extract_pdf_text_total [of corrupt_file exam_pdf] 2
  have b: "extract_pdf_text corrupt_file exam_pdf = []" by simp
  from extract_pdf_text_total [of two_pages exam_pdf] 3
  have c: "extract_pdf_text two_pages exam_pdf
             = render_pages 1 (map page_text [Page (py ''Q1''), Page (py ''Q2'')])" by blast
  from extract_pdf_text_total [of second_page_bad exam_pdf] 4
  have d: "extract_pdf_text second_page_bad exam_pdf
             = render_pages 1 (map page_text [Page (py ''Q1'')])" by blast
  show ?thesis unfolding a b c d by (simp add: s py_simps)
qed

text \<open>
  Claim C4, as the specification states it, says that any extraction failure gives an
  empty text. It fails when a page after the first cannot be read: the text of the earlier
  pages is returned, and the document built from it has a positive \<open>char_count\<close>.
\<close>

theorem extract_pdf_text_second_page_fails:
  "second_page_bad exam_pdf = Some (Pdf [Page (py ''Q1''), BadPage, Page (py ''Q3'')])
   \<and> extract_pdf_text second_page_bad exam_pdf
       = [0x0a] @ py ''--- Page 1 ---'' @ [0x0a] @ py ''Q1'' @ [0x0a]
   \<and> extract_pdf_text second_page_bad exam_pdf \<noteq> []
   \<and> char_count (process_question_paper same_path second_page_bad exam_pdf) = 19"
proof -
  have f: "second_page_bad exam_pdf = Some (Pdf [Page (py ''Q1''), BadPage, Page (py ''Q3'')])"
    by (simp add: second_page_bad_def)
  have s: "str_nat (Suc 0) = [0x31]" by (simp add: str_nat.simps)
  have e: "extract_pdf_text second_page_bad exam_pdf
       = [0x0a] @ py ''--- Page 1 ---'' @ [0x0a] @ py ''Q1'' @ [0x0a]"
    using extract_pdf_text_Pdf [of second_page_bad exam_pdf, OF f] by (simp add: s py_simps)
  have c: "char_count (process_question_paper same_path second_page_bad exam_pdf) = 19"
    by (simp add: process_question_paper_def Let_def same_path_def e py_simps)
  from f e c show ?thesis by simp
qed

text \<open>
  Claim C4, amended. When the extraction fails before the text of a first page has been
  read (the path cannot be opened, the file is no PDF, the first page is unreadable) the
  function does not raise and returns the empty string, so that each of the three document
  tools builds a document with \<open>char_count\<close> 0; a PDF without pages gives the same.
\<close>

theorem extract_pdf_text_empty_on_early_failure:
  assumes "files (normpath pdf_path) = None \<or> files (normpath pdf_path) = Some Corrupt
           \<or> files (normpath pdf_path) = Some (Pdf [])
           \<or> (\<exists>rest. files (normpath pdf_path) = Some (Pdf (BadPage # rest)))"
  shows "extract_pdf_text files (normpath pdf_path) = []
         \<and> doc_text (process_question_paper normpath files pdf_path) = []
         \<and> char_count (process_question_paper normpath files pdf_path) = 0
         \<and> doc_text (process_answer_sheet normpath files pdf_path) = []
         \<and> char_count (process_answer_sheet normpath files pdf_path) = 0
         \<and> doc_text (process_textbook normpath files pdf_path) = []
         \<and> char_count (process_textbook normpath files pdf_path) = 0"
proof -
  from assms have "extract_pdf_text files (normpath pdf_path) = []"
    by (simp only: extract_pdf_text_empty_iff)
  then show ?thesis
    by (simp add: process_question_paper_def process_answer_sheet_def process_textbook_def
        Let_def)
qed

theorem extract_pdf_text_empty_on_early_failure_witness:
  "char_count (process_question_paper same_path no_files exam_pdf) = 0
   \<and> char_count (process_answer_sheet same_path corrupt_file exam_pdf) = 0
   \<and> char_count (process_textbook same_path zero_pages exam_pdf) = 0
   \<and> extract_pdf_text first_page_bad exam_pdf = []"
proof -
  have 1: "no_files (same_path exam_pdf) = None" by (simp add: no_files_def)
  have 2: "corrupt_file (same_path exam_pdf) = Some Corrupt"
    by (simp add: corrupt_file_def same_path_def)
  have 3: "zero_pages (same_path exam_pdf) = Some (Pdf [])"
    by (simp add: zero_pages_def same_path_def)
  have 4: "\<exists>rest. first_page_bad (same_path exam_pdf) = Some (Pdf (BadPage # rest))"
    by (simp add: first_page_bad_def same_path_def)
  from extract_pdf_text_empty_on_early_failure [of no_files same_path exam_pdf] 1
       extract_pdf_text_empty_on_early_failure [of corrupt_file same_path exam_pdf] 2
       extract_pdf_text_empty_on_early_failure [of zero_pages same_path exam_pdf] 3
       extract_pdf_text_empty_on_early_failure [of first_page_bad same_path exam_pdf] 4
  show ?thesis by (simp add: same_path_def)
qed

text \<open>
  Claim C10. Each of \<open>process_question_paper\<close>, \<open>process_answer_sheet\<close> and
  \<open>process_textbook\<close> returns a dictionary whose \<open>char_count\<close> is the length of its text,
  whose type is the tag of the tool, whose path is the normalised input path, and whose
  text is extracted from that normalised path.
\<close>

theorem process_document_fields:
  "char_count (process_question_paper normpath files pdf_path)
     = int (length (doc_text (process_question_paper normpath files pdf_path)))
   \<and> doc_type (process_question_paper normpath files pdf_path) = py ''question_paper''
   \<and> doc_path (process_question_paper normpath files pdf_path) = normpath pdf_path
   \<and> doc_text (process_question_paper normpath files pdf_path)
       = extract_pdf_text files (normpath pdf_path)
   \<and> char_count (process_answer_sheet normpath files pdf_path)
       = int (length (doc_text (process_answer_sheet normpath files pdf_path)))
   \<and> doc_type (process_answer_sheet normpath files pdf_path) = py ''answer_sheet''
   \<and> doc_path (process_answer_sheet normpath files pdf_path) = normpath pdf_path
   \<and> doc_text (process_answer_sheet normpath files pdf_path)
       = extract_pdf_text files (normpath pdf_path)
   \<and> char_count (process_textbook normpath files pdf_path)
       = int (length (doc_text (process_textbook normpath files pdf_path)))
   \<and> doc_type (process_textbook normpath files pdf_path) = py ''textbook''
   \<and> doc_path (process_textbook normpath files pdf_path) = normpath pdf_path
   \<and> doc_text (process_textbook normpath files pdf_path)
       = extract_pdf_text files (normpath pdf_path)"
  by (simp add: process_question_paper_def process_answer_sheet_def process_textbook_def
      Let_def)

section \<open>Properties of the pipeline\<close>

lemma check_files_ok: "snd (check_files ex ps) \<longleftrightarrow> list_all ex ps"
  by (induction ps) (simp_all add: split_beta)

lemma check_files_steps: "list_all is_check (fst (check_files ex ps))"
  by (induction ps) (simp_all add: split_beta)

text \<open>
  Claim C7. When one of the three input files (question paper, answer sheet, textbook) does
  not exist at its configured path, the run returns \<^verbatim>\<open>None\<close> after the file checks alone:
  no runner and no session are created, and the reasoning service is never called, so no
  document is processed.
\<close>

theorem run_grading_system_missing_file:
  assumes "\<not> path_exists w (path_join (DATASET_PATH cfg) (QUESTION_PAPER cfg))
           \<or> \<not> path_exists w (path_join (DATASET_PATH cfg) (ANSWER_SHEET cfg))
           \<or> \<not> path_exists w (path_join (DATASET_PATH cfg) (TEXTBOOK cfg))"
  shows "snd (run_grading_system cfg w) = Inr None
         \<and> list_all is_check (fst (run_grading_system cfg w))
         \<and> RunnerCreated \<notin> set (fst (run_grading_system cfg w))
         \<and> SessionCreated \<notin> set (fst (run_grading_system cfg w))
         \<and> (\<forall>request. ServiceCalled request \<notin> set (fst (run_grading_system cfg w)))"
proof -
  let ?ps = "[path_join (DATASET_PATH cfg) (QUESTION_PAPER cfg),
              path_join (DATASET_PATH cfg) (ANSWER_SHEET cfg),
              path_join (DATASET_PATH cfg) (TEXTBOOK cfg)]"
  from assms have "\<not> list_all (path_exists w) ?ps" by auto
  then have nok: "\<not> snd (check_files (path_exists w) ?ps)"
    by (simp only: check_files_ok not_False_eq_True)
  have r: "run_grading_system cfg w = (fst (check_files (path_exists w) ?ps), Inr None)"
    using nok unfolding run_grading_system_def Let_def split_beta by simp
  have c: "list_all is_check (fst (run_grading_system cfg w))"
    unfolding r fst_conv by (rule check_files_steps)
  then have "\<forall>s \<in> set (fst (run_grading_system cfg w)). is_check s"
    by (simp add: list_all_iff)
  then have "RunnerCreated \<notin> set (fst (run_grading_system cfg w))"
       "SessionCreated \<notin> set (fst (run_grading_system cfg w))"
       "\<forall>request. ServiceCalled request \<notin> set (fst (run_grading_system cfg w))"
    by auto
  with r c show ?thesis by simp
qed

theorem run_grading_system_missing_file_witness:
  "\<not> path_exists answer_sheet_missing (path_join (DATASET_PATH Config) (ANSWER_SHEET Config))
   \<and> run_grading_system Config answer_sheet_missing
       = ([CheckedFile (py ''./exam-data/question_paper.pdf'') True,
           CheckedFile (py ''./exam-data/student_answer_sheet1.pdf'') False], Inr None)
   \<and> (\<forall>request. ServiceCalled request \<notin> set (fst (run_grading_system Config answer_sheet_missing)))
   \<and> run_grading_system Config all_present
       = ([CheckedFile (py ''./exam-data/question_paper.pdf'') True,
           CheckedFile (py ''./exam-data/student_answer_sheet1.pdf'') True,
           CheckedFile (py ''./exam-data/textbook_notes.pdf'') True,
           RunnerCreated, SessionCreated,
           ServiceCalled (grading_request (py ''./exam-data/question_paper.pdf'')
             (py ''./exam-data/student_answer_sheet1.pdf'') (py ''./exam-data/textbook_notes.pdf''))],
          Inr (Some [AdkEvent (Some [py ''report''])]))"
proof -
  have m: "\<not> path_exists answer_sheet_missing (path_join (DATASET_PATH Config) (ANSWER_SHEET Config))"
    by (simp add: answer_sheet_missing_def Config_def path_join_def py_simps)
  have r: "run_grading_system Config answer_sheet_missing
       = ([CheckedFile (py ''./exam-data/question_paper.pdf'') True,
           CheckedFile (py ''./exam-data/student_answer_sheet1.pdf'') False], Inr None)"
    by (simp add: run_grading_system_def answer_sheet_missing_def Config_def path_join_def
        py_simps)
  have p: "path_join (py ''./exam-data'') (py ''question_paper.pdf'')
             = py ''./exam-data/question_paper.pdf''"
    "path_join (py ''./exam-data'') (py ''student_answer_sheet1.pdf'')
             = py ''./exam-data/student_answer_sheet1.pdf''"
    "path_join (py ''./exam-data'') (py ''textbook_notes.pdf'')
             = py ''./exam-data/textbook_notes.pdf''"
    by (simp_all add: path_join_def py_simps)
  have a: "run_grading_system Config all_present
       = ([CheckedFile (py ''./exam-data/question_paper.pdf'') True,
           CheckedFile (py ''./exam-data/student_answer_sheet1.pdf'') True,
           CheckedFile (py ''./exam-data/textbook_notes.pdf'') True,
           RunnerCreated, SessionCreated,
           ServiceCalled (grading_request (py ''./exam-data/question_paper.pdf'')
             (py ''./exam-data/student_answer_sheet1.pdf'') (py ''./exam-data/textbook_notes.pdf''))],
          Inr (Some [AdkEvent (Some [py ''report''])]))"
    by (simp add: run_grading_system_def all_present_def Config_def p has_final_text_def Let_def)
  from run_grading_system_missing_file [of answer_sheet_missing Config] m r a
  show ?thesis by simp
qed

section \<open>Properties of the string operations\<close>

lemma find_py_cases:
  "find_py s sub = - 1 \<or> (0 \<le> find_py s sub \<and> nat (find_py s sub) + length sub \<le> length s)"
proof (induction s)
  case Nil
  show ?case by simp
next
  case (Cons c cs)
  show ?case
  proof (cases "prefix sub (c # cs)")
    case True
    from prefix_length_le [OF True] True show ?thesis by simp
  next
    case False
    with Cons show ?thesis by (auto simp: Let_def)
  qed
qed

lemma find_py_prefix:
  "find_py s sub \<noteq> - 1 \<Longrightarrow> prefix sub (drop (nat (find_py s sub)) s)"
proof (induction s)
  case Nil
  then show ?case by (simp split: if_splits)
next
  case (Cons c cs)
  show ?case
  proof (cases "prefix sub (c # cs)")
    case True
    then show ?thesis by simp
  next
    case False
    with Cons.prems have ne: "find_py cs sub \<noteq> - 1" by (auto simp: Let_def split: if_splits)
    with find_py_cases [of cs sub] have ge: "0 \<le> find_py cs sub" by simp
    from False ne have "find_py (c # cs) sub = find_py cs sub + 1" by (simp add: Let_def)
    moreover from ge have "nat (find_py cs sub + 1) = Suc (nat (find_py cs sub))" by simp
    ultimately show ?thesis using Cons.IH [OF ne] by simp
  qed
qed

lemma find_py_first:
  "find_py s sub \<noteq> - 1 \<Longrightarrow> j < nat (find_py s sub) \<Longrightarrow> \<not> prefix sub (drop j s)"
proof (induction s arbitrary: j)
  case Nil
  then show ?case by (simp split: if_splits)
next
  case (Cons c cs)
  show ?case
  proof (cases "prefix sub (c # cs)")
    case True
    with Cons.prems show ?thesis by simp
  next
    case False
    with Cons.prems have ne: "find_py cs sub \<noteq> - 1" by (auto simp: Let_def split: if_splits)
    with find_py_cases [of cs sub] have ge: "0 \<le> find_py cs sub" by simp
    from False ne have eq: "find_py (c # cs) sub = find_py cs sub + 1" by (simp add: Let_def)
    from ge have n: "nat (find_py cs sub + 1) = Suc (nat (find_py cs sub))" by simp
    show ?thesis
    proof (cases j)
      case 0
      with False show ?thesis by simp
    next
      case (Suc k)
      with Cons.prems(2) eq n have "k < nat (find_py cs sub)" by simp
      from Cons.IH [OF ne this] Suc show ?thesis by simp
    qed
  qed
qed

lemma find_py_absent:
  "find_py s sub = - 1 \<Longrightarrow> \<not> prefix sub (drop j s)"
proof (induction s arbitrary: j)
  case Nil
  then show ?case by (simp split: if_splits)
next
  case (Cons c cs)
  from Cons.prems have np: "\<not> prefix sub (c # cs)" by (auto split: if_splits)
  with Cons.prems have a: "find_py cs sub = - 1"
    using find_py_cases [of cs sub] by (auto simp: Let_def split: if_splits)
  show ?case
  proof (cases j)
    case 0
    with np show ?thesis by simp
  next
    case (Suc k)
    with Cons.IH [OF a, of k] show ?thesis by simp
  qed
qed


lemma str_in_iff: "str_in sub s \<longleftrightarrow> (\<exists>a b. s = a @ sub @ b)"
proof
  assume "str_in sub s"
  then have ne: "find_py s sub \<noteq> - 1" by (simp add: str_in_def)
  from find_py_prefix [OF ne] obtain b where "drop (nat (find_py s sub)) s = sub @ b"
    by (auto simp: prefix_def)
  then have "s = take (nat (find_py s sub)) s @ sub @ b"
    by (metis append_take_drop_id)
  then show "\<exists>a b. s = a @ sub @ b" by blast
next
  assume "\<exists>a b. s = a @ sub @ b"
  then obtain a b where s: "s = a @ sub @ b" by blast
  then have "prefix sub (drop (length a) s)" by simp
  with find_py_absent [of s sub "length a"] show "str_in sub s"
    by (auto simp: str_in_def)
qed

lemma before_after_first:
  assumes "str_in sep s"
  shows "s = before_first sep s @ sep @ after_first sep s"
proof -
  from assms have ne: "find_py s sep \<noteq> - 1" by (simp add: str_in_def)
  let ?i = "nat (find_py s sep)"
  from find_py_prefix [OF ne] obtain b where b: "drop ?i s = sep @ b"
    by (auto simp: prefix_def)
  have "drop (?i + length sep) s = drop (length sep) (drop ?i s)"
    by (simp add: add.commute)
  with b have "after_first sep s = b" by (simp add: after_first_def)
  moreover have "before_first sep s = take ?i s" using assms by (simp add: before_first_def)
  ultimately show ?thesis using b by (metis append_take_drop_id)
qed

lemma after_first_shorter:
  assumes "str_in sep s" "sep \<noteq> []"
  shows "length (after_first sep s) < length s"
proof -
  from before_after_first [OF assms(1)]
  have "length s = length (before_first sep s) + length sep + length (after_first sep s)"
    by (metis length_append add.assoc)
  with assms(2) show ?thesis by simp
qed

lemma split_py_absent: "sep \<noteq> [] \<Longrightarrow> \<not> str_in sep s \<Longrightarrow> split_py s sep = [s]"
  by (subst split_py.simps) (simp add: str_in_def)

lemma split_py_present:
  "sep \<noteq> [] \<Longrightarrow> str_in sep s \<Longrightarrow>
     split_py s sep = before_first sep s # split_py (after_first sep s) sep"
  by (subst split_py.simps) (simp add: str_in_def before_first_def after_first_def Let_def)

lemma split_py_first:
  "sep \<noteq> [] \<Longrightarrow> index_py (split_py s sep) 0 = Inr (before_first sep s)"
  by (cases "str_in sep s")
     (simp_all add: split_py_present split_py_absent index_py_def before_first_def)

lemma split_py_second:
  assumes "sep \<noteq> []" "str_in sep s"
  shows "index_py (split_py s sep) 1 = Inr (before_first sep (after_first sep s))"
proof -
  from split_py_first [OF assms(1), of "after_first sep s"]
  have "0 < length (split_py (after_first sep s) sep)
        \<and> split_py (after_first sep s) sep ! 0 = before_first sep (after_first sep s)"
    by (simp add: index_py_def split: if_splits)
  then show ?thesis by (simp add: split_py_present [OF assms] index_py_def)
qed

lemma before_first_absent: "sep \<noteq> [] \<Longrightarrow> \<not> str_in sep (before_first sep s)"
proof (cases "str_in sep s")
  case False
  then show ?thesis by (simp add: before_first_def)
next
  case True
  assume ne: "sep \<noteq> []"
  from True have f: "find_py s sep \<noteq> - 1" by (simp add: str_in_def)
  let ?i = "nat (find_py s sep)"
  show ?thesis
  proof
    assume "str_in sep (before_first sep s)"
    then obtain a b where ab: "take ?i s = a @ sep @ b"
      using True by (auto simp: before_first_def str_in_iff)
    have "s = (a @ sep @ b) @ drop ?i s" using ab by (metis append_take_drop_id)
    then have "prefix sep (drop (length a) s)" by (metis append.assoc append_eq_conv_conj prefixI)
    moreover have "length a < ?i"
    proof -
      have "length (take ?i s) = length a + length sep + length b" using ab by simp
      with ne have "length a < length (take ?i s)" by simp
      then show ?thesis by simp
    qed
    ultimately show False using find_py_first [OF f] by blast
  qed
qed

lemma before_first_idem: "sep \<noteq> [] \<Longrightarrow> before_first sep (before_first sep s) = before_first sep s"
  using before_first_absent [of sep s] by (simp add: before_first_def [of sep "before_first sep s"])

lemma find_py_single:
  "find_py s [c] = (if c \<in> set s then int (first_index c s) else - 1)"
proof (induction s)
  case Nil
  show ?case by simp
next
  case (Cons x xs)
  show ?case
  proof (cases "x = c")
    case True
    then show ?thesis by (simp add: first_index_def)
  next
    case False
    with Cons show ?thesis by (simp add: first_index_def Let_def)
  qed
qed

lemma first_index_less: "c \<in> set s \<Longrightarrow> first_index c s < length s"
  unfolding first_index_def
  by (induction s) auto

lemma first_index_snoc:
  "c \<in> set s \<Longrightarrow> first_index c (s @ t) = first_index c s"
  unfolding first_index_def by (induction s) auto

lemma first_index_absent:
  "c \<notin> set s \<Longrightarrow> first_index c (s @ c # t) = length s"
  unfolding first_index_def by (induction s) auto

lemma rfind_py_single:
  "rfind_py s [c] = (if c \<in> set s then int (last_index c s) else - 1)"
proof (induction s)
  case Nil
  show ?case by simp
next
  case (Cons x xs)
  show ?case
  proof (cases "c \<in> set xs")
    case True
    then have "c \<in> set (rev xs)" by simp
    from first_index_less [OF this] first_index_snoc [OF this, of "[x]"]
    have "last_index c (x # xs) = last_index c xs + 1"
      by (simp add: last_index_def)
    with True Cons show ?thesis by (simp add: Let_def)
  next
    case False
    show ?thesis
    proof (cases "x = c")
      case True
      from False have "c \<notin> set (rev xs)" by simp
      from first_index_absent [OF this, of "[]"] True
      have "last_index c (x # xs) = 0" by (simp add: last_index_def)
      with False True Cons show ?thesis by (simp add: Let_def)
    next
      case ne: False
      with False Cons show ?thesis by (simp add: Let_def)
    qed
  qed
qed

lemma last_index_less: "c \<in> set s \<Longrightarrow> last_index c s < length s"
  by (cases s) (simp_all add: last_index_def)

lemma slice_py_inner:
  "i \<le> j \<Longrightarrow> j < length s \<Longrightarrow>
     slice_py s (int i) (int j + 1) = take (j + 1 - i) (drop i s)"
  by (simp add: slice_py_def Let_def min_def nat_diff_distrib nat_add_distrib)

section \<open>Properties of the JSON extractor\<close>

lemma fence_not_empty: "py ''```'' \<noteq> []" "py ''```json'' \<noteq> []"
  by (simp_all add: py_simps)

lemma braces: "py ''{'' = [0x7b]" "py ''}'' = [0x7d]"
  by (simp_all add: py_simps)

lemma extract_direct:
  "json_loads text = Inr v \<Longrightarrow> extract_json_from_text json_loads text = Inr v"
  by (simp add: extract_json_from_text_def)

lemma extract_json_fence:
  assumes "json_loads text = Inl e" "str_in (py ''```json'') text"
  shows "extract_json_from_text json_loads text
           = json_loads (strip_py (before_first (py ''```'')
               (before_first (py ''```json'') (after_first (py ''```json'') text))))"
  using assms split_py_second [OF fence_not_empty(2) assms(2)]
  by (simp add: extract_json_from_text_def bind_exn_def split_py_first [OF fence_not_empty(1)])

lemma extract_plain_fence:
  assumes "json_loads text = Inl e" "\<not> str_in (py ''```json'') text" "str_in (py ''```'') text"
  shows "extract_json_from_text json_loads text
           = json_loads (strip_py (before_first (py ''```'') (after_first (py ''```'') text)))"
  using assms split_py_second [OF fence_not_empty(1) assms(3)]
  by (simp add: extract_json_from_text_def bind_exn_def split_py_first [OF fence_not_empty(1)]
      before_first_idem [OF fence_not_empty(1)])

lemma nth_first_index: "c \<in> set s \<Longrightarrow> s ! first_index c s = c"
  using nth_length_takeWhile [of "\<lambda>x. x \<noteq> c" s] first_index_less [of c s]
  by (simp add: first_index_def)

lemma nth_last_index:
  assumes "c \<in> set s"
  shows "s ! last_index c s = c"
proof -
  from assms have r: "c \<in> set (rev s)" by simp
  from first_index_less [OF r] have l: "first_index c (rev s) < length s" by simp
  from rev_nth [OF l] nth_first_index [OF r]
  have "s ! (length s - Suc (first_index c (rev s))) = c" by simp
  then show ?thesis by (simp add: last_index_def)
qed

lemma brace_cond:
  "(find_py text (py ''{'') \<noteq> - 1 \<and> rfind_py text (py ''}'') + 1 > find_py text (py ''{''))
     \<longleftrightarrow> brace_pair text"
proof (cases "0x7b \<in> set text \<and> 0x7d \<in> set text")
  case False
  then show ?thesis
    by (auto simp: braces find_py_single rfind_py_single brace_pair_def)
next
  case True
  from True nth_first_index [of "0x7b" "text"] nth_last_index [of "0x7d" "text"]
  have "first_index 0x7b text \<noteq> last_index 0x7d text" by auto
  with True show ?thesis
    by (auto simp: braces find_py_single rfind_py_single brace_pair_def)
qed

lemma extract_braces:
  assumes "json_loads text = Inl e" "\<not> str_in (py ''```'') text" "brace_pair text"
  shows "extract_json_from_text json_loads text
           = json_loads (take (last_index 0x7d text + 1 - first_index 0x7b text)
                           (drop (first_index 0x7b text) text))"
proof -
  from assms(2) have nj: "\<not> str_in (py ''```json'') text"
    by (auto simp: str_in_iff py_simps)
  from assms(3) have m: "0x7b \<in> set text" "0x7d \<in> set text"
    and lt: "first_index 0x7b text < last_index 0x7d text"
    by (simp_all add: brace_pair_def)
  from assms(3) have c: "find_py text (py ''{'') \<noteq> - 1
      \<and> rfind_py text (py ''}'') + 1 > find_py text (py ''{'')"
    using brace_cond [of "text"] by blast
  have sl: "slice_py text (find_py text (py ''{'')) (rfind_py text (py ''}'') + 1)
          = take (last_index 0x7d text + 1 - first_index 0x7b text)
              (drop (first_index 0x7b text) text)"
    using slice_py_inner [of "first_index 0x7b text" "last_index 0x7d text" "text"]
      lt last_index_less [OF m(2)] m
    by (simp add: braces find_py_single rfind_py_single)
  show ?thesis
    unfolding extract_json_from_text_def Let_def
    using assms(1,2) nj c sl by simp
qed

lemma extract_no_json:
  assumes "json_loads text = Inl e" "\<not> str_in (py ''```'') text" "\<not> brace_pair text"
  shows "extract_json_from_text json_loads text = Inl NoJsonFound"
proof -
  from assms(2) have nj: "\<not> str_in (py ''```json'') text"
    by (auto simp: str_in_iff py_simps)
  from assms(3) have c: "\<not> (find_py text (py ''{'') \<noteq> - 1
      \<and> rfind_py text (py ''}'') + 1 > find_py text (py ''{''))"
    using brace_cond [of "text"] by blast
  show ?thesis
    unfolding extract_json_from_text_def Let_def NoJsonFound_def
    using assms(1,2) nj c by auto
qed

text \<open>Facts for evaluating the string operations and the parser on concrete texts.\<close>

lemmas str_eval = py_simps str_in_def before_first_def after_first_def strip_py_def isspace_def
  first_index_def last_index_def brace_pair_def Let_def

lemmas json_eval = loads_def skip_ws_def is_ws_def is_digit_def parse_value.simps
  parse_items.simps parse_pairs.simps scan_atom_def scan_number_def scan_int_part_def
  scan_frac_def scan_exp_def nat_of_digits_def after_item_def scan_key_def scanstring.simps
  scan_char_def scan_escape_def backslash_def hexval_def cons_chr_def dict_of_pairs_def

lemma loads_error: "loads s = Inl e \<Longrightarrow> e = JSONDecodeError"
  by (auto simp: loads_def split: if_splits option.splits)

lemma not_NoJsonFound: "JSONDecodeError \<noteq> NoJsonFound"
  by (simp add: NoJsonFound_def)

text \<open>
  Claim C2. For every text, \<open>extract_json_from_text\<close> works in this order: (1) the
  strict parse of the whole text, whose result is returned when it succeeds; (2) otherwise,
  if the text has a fence tagged \<^verbatim>\<open>json\<close>, the parse of the first such fenced segment: what
  follows the first \<^verbatim>\<open>```json\<close>, up to the next fence, stripped; (3) otherwise, if the text
  has a fence at all, the parse of the first fenced segment; (4) otherwise the parse of the
  substring from the first \<^verbatim>\<open>{\<close> to the last \<^verbatim>\<open>}\<close>.
\<close>

theorem extract_json_priority:
  fixes json_loads :: "pystr \<Rightarrow> exn + 'j"
  shows
  "(\<forall>v. json_loads text = Inr v \<longrightarrow> extract_json_from_text json_loads text = Inr v)
   \<and> ((\<exists>e. json_loads text = Inl e) \<and> str_in (py ''```json'') text \<longrightarrow>
        extract_json_from_text json_loads text
          = json_loads (strip_py (before_first (py ''```'')
              (before_first (py ''```json'') (after_first (py ''```json'') text)))))
   \<and> ((\<exists>e. json_loads text = Inl e) \<and> \<not> str_in (py ''```json'') text
        \<and> str_in (py ''```'') text \<longrightarrow>
        extract_json_from_text json_loads text
          = json_loads (strip_py (before_first (py ''```'') (after_first (py ''```'') text))))
   \<and> ((\<exists>e. json_loads text = Inl e) \<and> \<not> str_in (py ''```'') text \<and> brace_pair text \<longrightarrow>
        extract_json_from_text json_loads text
          = json_loads (take (last_index 0x7d text + 1 - first_index 0x7b text)
                          (drop (first_index 0x7b text) text)))"
  using extract_direct [of json_loads "text"] extract_json_fence [of json_loads "text"]
    extract_plain_fence [of json_loads "text"] extract_braces [of json_loads "text"]
  by blast

theorem extract_json_priority_witness:
  "extract_json_from_text loads (py ''[1]'') = Inr (JArr [JInt 1])
   \<and> extract_json_from_text loads
        (py ''Here: ```json'' @ [0x0a] @ py ''[1]'' @ [0x0a] @ py ''``` and ```[2]```'')
       = Inr (JArr [JInt 1])
   \<and> extract_json_from_text loads (py ''Here: ```'' @ [0x0a] @ py ''[1]'' @ [0x0a] @ py ''``` {}'')
       = Inr (JArr [JInt 1])
   \<and> extract_json_from_text loads (py ''The result is {} and so on } ...'')
       = Inl JSONDecodeError
   \<and> extract_json_from_text loads (py ''The result is {} ...'') = Inr (JObj [])"
proof -
  let ?t2 = "py ''Here: ```json'' @ [0x0a] @ py ''[1]'' @ [0x0a] @ py ''``` and ```[2]```''"
  let ?t3 = "py ''Here: ```'' @ [0x0a] @ py ''[1]'' @ [0x0a] @ py ''``` {}''"
  let ?t4 = "py ''The result is {} and so on } ...''"
  let ?t5 = "py ''The result is {} ...''"
  have 1: "loads (py ''[1]'') = Inr (JArr [JInt 1])"
    by (simp add: json_eval str_eval)
  have 2: "(\<exists>e. loads ?t2 = Inl e) \<and> str_in (py ''```json'') ?t2"
    by (simp add: json_eval str_eval)
  have 3: "(\<exists>e. loads ?t3 = Inl e) \<and> \<not> str_in (py ''```json'') ?t3 \<and> str_in (py ''```'') ?t3"
    by (simp add: json_eval str_eval)
  have 4: "(\<exists>e. loads ?t4 = Inl e) \<and> \<not> str_in (py ''```'') ?t4 \<and> brace_pair ?t4"
    by (simp add: json_eval str_eval)
  have 5: "(\<exists>e. loads ?t5 = Inl e) \<and> \<not> str_in (py ''```'') ?t5 \<and> brace_pair ?t5"
    by (simp add: json_eval str_eval)
  from extract_json_priority [of loads "py ''[1]''"] 1
  have a: "extract_json_from_text loads (py ''[1]'') = Inr (JArr [JInt 1])" by blast
  from extract_json_priority [of loads ?t2] 2
  have "extract_json_from_text loads ?t2
          = loads (strip_py (before_first (py ''```'')
              (before_first (py ''```json'') (after_first (py ''```json'') ?t2))))" by blast
  then have b: "extract_json_from_text loads ?t2 = Inr (JArr [JInt 1])"
    by (simp add: json_eval str_eval)
  from extract_json_priority [of loads ?t3] 3
  have "extract_json_from_text loads ?t3
          = loads (strip_py (before_first (py ''```'') (after_first (py ''```'') ?t3)))" by blast
  then have c: "extract_json_from_text loads ?t3 = Inr (JArr [JInt 1])"
    by (simp add: json_eval str_eval)
  from extract_json_priority [of loads ?t4] 4
  have "extract_json_from_text loads ?t4
          = loads (take (last_index 0x7d ?t4 + 1 - first_index 0x7b ?t4)
                          (drop (first_index 0x7b ?t4) ?t4))" by blast
  then have d: "extract_json_from_text loads ?t4 = Inl JSONDecodeError"
    by (simp add: json_eval str_eval)
  from extract_json_priority [of loads ?t5] 5
  have "extract_json_from_text loads ?t5
          = loads (take (last_index 0x7d ?t5 + 1 - first_index 0x7b ?t5)
                          (drop (first_index 0x7b ?t5) ?t5))" by blast
  then have e: "extract_json_from_text loads ?t5 = Inr (JObj [])"
    by (simp add: json_eval str_eval)
  from a b c d e show ?thesis by simp
qed

text \<open>
  Claim C3, as the specification states it, says that every failure of the extractor is the
  error \<open>NoJsonFound\<close>. It fails on a text in which a candidate is found that is no JSON:
  the error of the parser leaves the function instead.
\<close>

theorem extract_json_decode_error:
  "extract_json_from_text loads (py ''{abc}'') = Inl JSONDecodeError
   \<and> extract_json_from_text loads (py ''```hello```'') = Inl JSONDecodeError
   \<and> JSONDecodeError \<noteq> NoJsonFound"
proof -
  have 1: "loads (py ''{abc}'') = Inl JSONDecodeError \<and> \<not> str_in (py ''```'') (py ''{abc}'')
           \<and> brace_pair (py ''{abc}'')"
    by (simp add: json_eval str_eval)
  then have a: "extract_json_from_text loads (py ''{abc}'')
      = loads (take (last_index 0x7d (py ''{abc}'') + 1 - first_index 0x7b (py ''{abc}''))
                          (drop (first_index 0x7b (py ''{abc}'')) (py ''{abc}'')))"
    using extract_braces [of loads "py ''{abc}''"] by blast
  have 2: "loads (py ''```hello```'') = Inl JSONDecodeError
           \<and> \<not> str_in (py ''```json'') (py ''```hello```'')
           \<and> str_in (py ''```'') (py ''```hello```'')"
    by (simp add: json_eval str_eval)
  then have b: "extract_json_from_text loads (py ''```hello```'')
      = loads (strip_py (before_first (py ''```'') (after_first (py ''```'') (py ''```hello```''))))"
    using extract_plain_fence [of loads "py ''```hello```''"] by blast
  have "extract_json_from_text loads (py ''{abc}'') = Inl JSONDecodeError"
    unfolding a by (simp add: json_eval str_eval)
  moreover have "extract_json_from_text loads (py ''```hello```'') = Inl JSONDecodeError"
    unfolding b by (simp add: json_eval str_eval)
  ultimately show ?thesis using not_NoJsonFound by simp
qed

text \<open>
  Claim C3, amended. For a parser that never raises the error \<open>NoJsonFound\<close> itself, the
  extractor fails with \<open>NoJsonFound\<close> exactly when the direct parse fails, the text has no
  code fence and no \<^verbatim>\<open>}\<close> follows its first \<^verbatim>\<open>{\<close>. Every other failure is the error that
  the second parse raises on the candidate it was given, a fenced segment or a brace
  substring (for \<open>loads\<close> that is \<open>JSONDecodeError\<close>); the extractor fails in no other way.
\<close>

theorem extract_json_failures:
  fixes json_loads :: "pystr \<Rightarrow> exn + 'j"
  assumes "\<forall>s. json_loads s \<noteq> Inl NoJsonFound"
  shows "(extract_json_from_text json_loads text = Inl NoJsonFound \<longleftrightarrow>
            (\<exists>e. json_loads text = Inl e) \<and> \<not> str_in (py ''```'') text \<and> \<not> brace_pair text)
         \<and> (\<forall>e. extract_json_from_text json_loads text = Inl e \<and> e \<noteq> NoJsonFound \<longrightarrow>
               (\<exists>e0. json_loads text = Inl e0)
               \<and> (str_in (py ''```'') text \<or> brace_pair text)
               \<and> (\<exists>s. json_loads s = Inl e))"
proof (cases "json_loads text")
  case (Inr v)
  then show ?thesis by (simp add: extract_direct)
next
  case (Inl e0)
  from assms have nn: "\<And>s. json_loads s \<noteq> Inl NoJsonFound" by blast
  consider (jf) "str_in (py ''```json'') text"
    | (pf) "\<not> str_in (py ''```json'') text" "str_in (py ''```'') text"
    | (br) "\<not> str_in (py ''```'') text" "brace_pair text"
    | (no) "\<not> str_in (py ''```'') text" "\<not> brace_pair text"
    by blast
  then show ?thesis
  proof cases
    case jf
    then have f: "str_in (py ''```'') text" by (auto simp: str_in_iff py_simps)
    from extract_json_fence [of json_loads "text", OF Inl jf] obtain s where
      "extract_json_from_text json_loads text = json_loads s" by blast
    with nn [of s] Inl f show ?thesis by auto
  next
    case pf
    from extract_plain_fence [of json_loads "text", OF Inl pf] obtain s where
      "extract_json_from_text json_loads text = json_loads s" by blast
    with nn [of s] Inl pf show ?thesis by auto
  next
    case br
    from extract_braces [of json_loads "text", OF Inl br] obtain s where
      "extract_json_from_text json_loads text = json_loads s" by blast
    with nn [of s] Inl br show ?thesis by auto
  next
    case no
    from extract_no_json [of json_loads "text", OF Inl no] Inl no show ?thesis by auto
  qed
qed

theorem extract_json_failures_witness:
  "extract_json_from_text loads (py ''hello'') = Inl NoJsonFound
   \<and> extract_json_from_text loads (py ''} then {'') = Inl NoJsonFound
   \<and> \<not> brace_pair (py ''} then {'')
   \<and> brace_pair (py ''{abc}'')
   \<and> extract_json_from_text loads (py ''{abc}'') \<noteq> Inl NoJsonFound"
proof -
  have h: "\<forall>s. loads s \<noteq> Inl NoJsonFound"
  proof (intro allI notI)
    fix s assume "loads s = Inl NoJsonFound"
    from loads_error [OF this] not_NoJsonFound show False by simp
  qed
  have 1: "(\<exists>e. loads (py ''hello'') = Inl e) \<and> \<not> str_in (py ''```'') (py ''hello'')
           \<and> \<not> brace_pair (py ''hello'')"
    by (simp add: json_eval str_eval)
  have 2: "(\<exists>e. loads (py ''} then {'') = Inl e) \<and> \<not> str_in (py ''```'') (py ''} then {'')
           \<and> \<not> brace_pair (py ''} then {'')"
    by (simp add: json_eval str_eval)
  have 3: "brace_pair (py ''{abc}'')" by (simp add: str_eval)
  from extract_json_failures [OF h, of "py ''hello''"] 1
       extract_json_failures [OF h, of "py ''} then {''"] 2
       extract_json_failures [OF h, of "py ''{abc}''"] 3
  show ?thesis by blast
qed

section \<open>Properties of the result writer\<close>

text \<open>
  Claim C8. When the input string is no valid JSON, \<open>save_results_to_file\<close> returns the
  error message and leaves the file system as it was: the parse comes before the file is
  opened, so no file is created or truncated.
\<close>

theorem save_invalid_json_keeps_files:
  assumes "loads results_json = Inl e"
  shows "save_results_to_file env fs results_json filename = (fs, error_message env e)"
  using assms by (simp add: save_results_to_file_def)

theorem save_invalid_json_keeps_files_witness:
  "loads (py ''{abc}'') = Inl JSONDecodeError
   \<and> save_results_to_file plain_env no_fs (py ''{abc}'') default_filename
       = (no_fs, [0x2717] @ py '' Error saving results: error'')"
proof -
  have l: "loads (py ''{abc}'') = Inl JSONDecodeError"
    by (simp add: json_eval str_eval)
  from save_invalid_json_keeps_files [OF l, of plain_env no_fs default_filename] l
  show ?thesis by (simp add: error_message_def plain_env_def py_simps)
qed

section \<open>The scanner consumes its input\<close>

text \<open>
  Every value that is read takes at least one character, so the length tests in
  \<open>parse_items\<close> and \<open>parse_pairs\<close> never fail and the two functions satisfy their
  equations without the tests.
\<close>

lemma scan_int_part_shorter: "scan_int_part s = Some (ds, r) \<Longrightarrow> length r < length s"
proof (cases s)
  case Nil
  then show "scan_int_part s = Some (ds, r) \<Longrightarrow> ?thesis" by (simp add: scan_int_part_def)
next
  case (Cons c cs)
  assume a: "scan_int_part s = Some (ds, r)"
  show ?thesis
  proof (cases "c = 0x30")
    case True
    with a Cons show ?thesis by (simp add: scan_int_part_def)
  next
    case False
    with a Cons have d: "0x31 \<le> c \<and> c \<le> 0x39" and r: "r = dropWhile is_digit (c # cs)"
      by (auto simp: scan_int_part_def split: if_splits)
    from d have "is_digit c" by (simp add: is_digit_def)
    with r have "r = dropWhile is_digit cs" by simp
    then have "length r \<le> length cs" by (simp add: length_dropWhile_le)
    with Cons show ?thesis by simp
  qed
qed

lemma scan_frac_shorter: "scan_frac s = (f, r) \<Longrightarrow> length r \<le> length s"
proof (cases s)
  case Nil
  then show "scan_frac s = (f, r) \<Longrightarrow> ?thesis" by (simp add: scan_frac_def)
next
  case (Cons c cs)
  assume "scan_frac s = (f, r)"
  with Cons have "r = dropWhile is_digit cs \<or> r = s"
    by (auto simp: scan_frac_def split: if_splits)
  moreover have "length (dropWhile is_digit cs) \<le> length cs" by (rule length_dropWhile_le)
  ultimately show ?thesis using Cons by auto
qed

lemma scan_exp_shorter: "scan_exp s = (e, r) \<Longrightarrow> length r \<le> length s"
proof (cases s)
  case Nil
  then show "scan_exp s = (e, r) \<Longrightarrow> ?thesis" by (simp add: scan_exp_def)
next
  case (Cons c cs)
  assume a: "scan_exp s = (e, r)"
  have le: "length (dropWhile is_digit xs) \<le> length xs" for xs :: pystr
    by (rule length_dropWhile_le)
  from a Cons have "r = s \<or> r = dropWhile is_digit cs \<or> r = dropWhile is_digit (tl cs)"
    by (auto simp: scan_exp_def Let_def split: if_splits list.splits)
  moreover have "length (tl cs) \<le> length cs" by simp
  ultimately show ?thesis using Cons le [of cs] le [of "tl cs"] by auto
qed

lemma scan_number_shorter:
  assumes "scan_number s = Some (v, r)"
  shows "length r < length s"
proof -
  define s1 where "s1 = (case s of c # cs \<Rightarrow> if c = 0x2d then cs else s | [] \<Rightarrow> s)"
  have l1: "length s1 \<le> length s" by (auto simp: s1_def split: list.splits)
  from assms obtain ds s2 where i: "scan_int_part s1 = Some (ds, s2)"
    by (auto simp: scan_number_def s1_def Let_def split: list.splits if_splits option.splits)
  obtain f s3 where f: "scan_frac s2 = (f, s3)" by (cases "scan_frac s2")
  obtain e s4 where e: "scan_exp s3 = (e, s4)" by (cases "scan_exp s3")
  from assms i f e have "r = s4"
    by (auto simp: scan_number_def s1_def Let_def split: list.splits if_splits)
  with scan_int_part_shorter [OF i] scan_frac_shorter [OF f] scan_exp_shorter [OF e] l1
  show ?thesis by simp
qed

lemma scan_atom_shorter:
  assumes "scan_atom s = Some (v, r)"
  shows "length r < length s"
proof -
  have d: "length (drop (length p) s) < length s" if "prefix p s" "p \<noteq> []" for p
    using prefix_length_le [OF that(1)] that(2) by (cases p) simp_all
  from assms consider "prefix (py ''null'') s" "r = drop 4 s"
    | "prefix (py ''true'') s" "r = drop 4 s"
    | "prefix (py ''false'') s" "r = drop 5 s"
    | "scan_number s = Some (v, r)"
    | "prefix (py ''NaN'') s" "r = drop 3 s"
    | "prefix (py ''Infinity'') s" "r = drop 8 s"
    | "prefix (py ''-Infinity'') s" "r = drop 9 s"
    by (auto simp: scan_atom_def split: if_splits option.splits)
  then show ?thesis
  proof cases
    case 1
    with d [of "py ''null''"] show ?thesis by (simp add: py_simps)
  next
    case 2
    with d [of "py ''true''"] show ?thesis by (simp add: py_simps)
  next
    case 3
    with d [of "py ''false''"] show ?thesis by (simp add: py_simps)
  next
    case 4
    then show ?thesis by (rule scan_number_shorter)
  next
    case 5
    with d [of "py ''NaN''"] show ?thesis by (simp add: py_simps)
  next
    case 6
    with d [of "py ''Infinity''"] show ?thesis by (simp add: py_simps)
  next
    case 7
    with d [of "py ''-Infinity''"] show ?thesis by (simp add: py_simps)
  qed
qed

lemma after_item_Last: "after_item c s = Last t \<Longrightarrow> length t < length s"
proof -
  assume "after_item c s = Last t"
  then obtain d where "skip_ws s = d # t"
    by (auto simp: after_item_def split: list.splits if_splits)
  with skip_ws_length [of s] show ?thesis by simp
qed

lemma parse_shorter:
  "(\<forall>v r. parse_value s = Some (v, r) \<longrightarrow> length r < length s)"
  "(\<forall>vs r. parse_items s1 = Some (vs, r) \<longrightarrow> length r < length s1)"
  "(\<forall>ps r. parse_pairs s2 = Some (ps, r) \<longrightarrow> length r < length s2)"
proof (induction s and s1 and s2 rule: parse_value_parse_items_parse_pairs.induct)
  case (1 s)
  show ?case
  proof (intro allI impI)
    fix v r
    assume a: "parse_value s = Some (v, r)"
    then obtain c cs where s: "s = c # cs" by (cases s) (auto simp: parse_value.simps)
    from a s have a': "parse_value (c # cs) = Some (v, r)" by simp
    note u = a' [unfolded parse_value.simps [of "c # cs"], simplified]
    consider (str) "c = 0x22" | (obj) "c \<noteq> 0x22" "c = 0x7b"
      | (arr) "c \<noteq> 0x22" "c \<noteq> 0x7b" "c = 0x5b"
      | (atom) "c \<noteq> 0x22" "c \<noteq> 0x7b" "c \<noteq> 0x5b" by blast
    then show "length r < length s"
    proof cases
      case str
      with u obtain k where "scanstring cs = Some (k, r)"
        by auto
      from scanstring_shorter [OF this] s show ?thesis by simp
    next
      case obj
      with u obtain d ds where sk: "skip_ws cs = d # ds"
        by (cases "skip_ws cs") auto
      show ?thesis
      proof (cases "d = 0x7d")
        case True
        with u obj sk have "r = ds" by simp
        with sk skip_ws_length [of cs] s show ?thesis by simp
      next
        case False
        with u obj sk obtain ps where "parse_pairs (d # ds) = Some (ps, r)"
          by auto
        with "1.IH"(1) [OF s _ obj(2) sk False] obj(1)
        have "length r < length (d # ds)" by blast
        with sk skip_ws_length [of cs] s show ?thesis by simp
      qed
    next
      case arr
      with u obtain d ds where sk: "skip_ws cs = d # ds"
        by (cases "skip_ws cs") auto
      show ?thesis
      proof (cases "d = 0x5d")
        case True
        with u arr sk have "r = ds" by simp
        with sk skip_ws_length [of cs] s show ?thesis by simp
      next
        case False
        with u arr sk obtain vs where "parse_items (d # ds) = Some (vs, r)"
          by auto
        with "1.IH"(2) [OF s _ _ arr(3) sk False] arr(1,2)
        have "length r < length (d # ds)" by blast
        with sk skip_ws_length [of cs] s show ?thesis by simp
      qed
    next
      case atom
      with u s have "scan_atom s = Some (v, r)" by simp
      then show ?thesis by (rule scan_atom_shorter)
    qed
  qed
next
  case (2 s)
  show ?case
  proof (intro allI impI)
    fix vs r
    assume a: "parse_items s = Some (vs, r)"
    then obtain v r1 where pv: "parse_value s = Some (v, r1)"
      by (cases "parse_value s") (auto simp: parse_items.simps [of s])
    with "2.IH"(1) have lt: "length r1 < length s" by blast
    show "length r < length s"
    proof (cases "after_item 0x5d r1")
      case (Last t)
      with a pv lt have "r = t" by (simp add: parse_items.simps [of s])
      with after_item_Last [OF Last] lt show ?thesis by simp
    next
      case (More t)
      with a pv lt obtain vs' where "parse_items t = Some (vs', r)"
        by (auto simp: parse_items.simps [of s])
      with "2.IH"(2) [OF pv refl lt More] have "length r < length t" by blast
      with after_item_More [OF More] lt show ?thesis by simp
    next
      case Malformed
      with a pv lt show ?thesis by (simp add: parse_items.simps [of s])
    qed
  qed
next
  case (3 s)
  show ?case
  proof (intro allI impI)
    fix ps r
    assume a: "parse_pairs s = Some (ps, r)"
    then obtain key r0 where sk: "scan_key s = Some (key, r0)"
      by (cases "scan_key s") (auto simp: parse_pairs.simps [of s])
    with a obtain v r1 where pv: "parse_value r0 = Some (v, r1)"
      by (cases "parse_value r0") (auto simp: parse_pairs.simps [of s])
    from "3.IH"(1) [OF sk refl] pv have lt0: "length r1 < length r0" by blast
    with scan_key_shorter [OF sk] have lt: "length r1 < length s" by simp
    show "length r < length s"
    proof (cases "after_item 0x7d r1")
      case (Last t)
      with a sk pv lt have "r = t" by (simp add: parse_pairs.simps [of s])
      with after_item_Last [OF Last] lt show ?thesis by simp
    next
      case (More t)
      with a sk pv lt obtain ps' where "parse_pairs t = Some (ps', r)"
        by (auto simp: parse_pairs.simps [of s])
      with "3.IH"(2) [OF sk refl pv refl lt More]
      have "length r < length t" by blast
      with after_item_More [OF More] lt show ?thesis by simp
    next
      case Malformed
      with a sk pv lt show ?thesis by (simp add: parse_pairs.simps [of s])
    qed
  qed
qed


lemma parse_value_shorter: "parse_value s = Some (v, r) \<Longrightarrow> length r < length s"
  using parse_shorter(1) by blast

lemma parse_items_shorter: "parse_items s = Some (vs, r) \<Longrightarrow> length r < length s"
  using parse_shorter(2) by blast

lemma parse_pairs_shorter: "parse_pairs s = Some (ps, r) \<Longrightarrow> length r < length s"
  using parse_shorter(3) by blast

lemma parse_items_unguarded:
  "parse_items s =
     (case parse_value s of
        None \<Rightarrow> None
      | Some (v, r) \<Rightarrow>
          (case after_item 0x5d r of
             Malformed \<Rightarrow> None
           | Last t \<Rightarrow> Some ([v], t)
           | More t \<Rightarrow> map_option (\<lambda>(vs, r'). (v # vs, r')) (parse_items t)))"
proof (cases "parse_value s")
  case None
  then show ?thesis by (subst parse_items.simps) simp
next
  case (Some p)
  obtain v r where p: "p = (v, r)" by (cases p)
  from Some p parse_value_shorter [of s v r] have "length r < length s" by simp
  with Some p show ?thesis by (subst parse_items.simps) simp
qed

lemma parse_pairs_unguarded:
  "parse_pairs s =
     (case scan_key s of
        None \<Rightarrow> None
      | Some (key, r) \<Rightarrow>
          (case parse_value r of
             None \<Rightarrow> None
           | Some (v, r') \<Rightarrow>
               (case after_item 0x7d r' of
                  Malformed \<Rightarrow> None
                | Last t \<Rightarrow> Some ([(key, v)], t)
                | More t \<Rightarrow> map_option (\<lambda>(ps, r''). ((key, v) # ps, r'')) (parse_pairs t))))"
proof (cases "scan_key s")
  case None
  then show ?thesis by (subst parse_pairs.simps) simp
next
  case (Some p)
  obtain key r where p: "p = (key, r)" by (cases p)
  show ?thesis
  proof (cases "parse_value r")
    case None
    with Some p show ?thesis by (subst parse_pairs.simps) simp
  next
    case q: (Some q)
    obtain v r' where q': "q = (v, r')" by (cases q)
    from q q' parse_value_shorter [of r v r'] have "length r' < length r" by simp
    with scan_key_shorter [of s key r] Some p have "length r' < length s" by simp
    with Some p q q' show ?thesis by (subst parse_pairs.simps) simp
  qed
qed

section \<open>The encoder and the scanner are inverse\<close>




lemma drop_hex4: "drop 4 (hex4 n @ r) = r"
  by (simp add: hex4_def)





































































section \<open>Round trips\<close>








end
